theory Spec2Isabelle
  imports Complex_Main
begin

section \<open>Python values\<close>

text \<open>
  The program is a single Python module,
  \<^verbatim>\<open>market_price_edpgw_authentication.py\<close>.  The values it handles are what
  \<^verbatim>\<open>json.loads\<close> and \<^verbatim>\<open>Response.json()\<close> produce and what
  \<^verbatim>\<open>json.dumps\<close> consumes: \<^verbatim>\<open>None\<close>, booleans, integers, strings, lists and
  dictionaries.  A dictionary is an association list in insertion order (the order
  \<^verbatim>\<open>json.dumps\<close> writes); its keys are taken to be distinct.  Numbers are integers:
  a JSON document with a fractional number is outside the model.  A string is a list
  of \<^typ>\<open>char\<close>, read as the code points 0 to 255.
\<close>

datatype json =
    JNull
  | JBool bool
  | JInt int
  | JStr string
  | JArr "json list"
  | JObj "(string \<times> json) list"

text \<open>
  Exceptions the module can raise.  \<open>Unmodelled\<close> marks a call of \<^verbatim>\<open>int()\<close> or
  \<^verbatim>\<open>float()\<close> on a string that is not a plain run of decimal digits: Python
  accepts more (signs, blanks, underscores, exponents) and the model does not say what
  happens there.
\<close>

datatype error = KeyError | TypeError | ValueError | OverflowError | JSONDecodeError | Unmodelled

text \<open>
  How the observation of a piece of the program ends: it returns, raises, calls
  \<^verbatim>\<open>sys.exit(n)\<close>, or is still running (\<open>Running\<close>) when the scripted responses
  of the server have run out or the given number of passes of a loop is done.
  \<open>Exit n\<close> is the exception \<^verbatim>\<open>SystemExit\<close> with code \<open>n\<close>, raised in the thread that
  made the call; what the interpreter then does with that thread and with the process
  is not part of the model.
\<close>

datatype 'a result = Return 'a | Raise error | Exit int | Running

text \<open>\<^verbatim>\<open>obj[key]\<close> for a string key: a dictionary looks the key up, every other value
  raises \<^verbatim>\<open>TypeError\<close>.\<close>

fun subscript :: "json \<Rightarrow> string \<Rightarrow> error + json" where
  "subscript (JObj kvs) k = (case map_of kvs k of None \<Rightarrow> Inl KeyError | Some v \<Rightarrow> Inr v)"
| "subscript _ k = Inl TypeError"

text \<open>\<^verbatim>\<open>key in obj\<close>, used on a value that \<^verbatim>\<open>obj['Type']\<close> has already shown to be
  a dictionary.\<close>

fun has_key :: "string \<Rightarrow> json \<Rightarrow> bool" where
  "has_key k (JObj kvs) = (map_of kvs k \<noteq> None)"
| "has_key k _ = False"

text \<open>Truth value of a Python object, as \<^verbatim>\<open>if not x\<close> tests it.\<close>

fun truthy :: "json \<Rightarrow> bool" where
  "truthy JNull = False"
| "truthy (JBool b) = b"
| "truthy (JInt i) = (i \<noteq> 0)"
| "truthy (JStr s) = (s \<noteq> [])"
| "truthy (JArr xs) = (xs \<noteq> [])"
| "truthy (JObj kvs) = (kvs \<noteq> [])"

subsection \<open>\<^verbatim>\<open>json.dumps\<close> with its default arguments\<close>

definition hex_digit :: "nat \<Rightarrow> char" where
  "hex_digit n = ''0123456789abcdef'' ! (n mod 16)"

text \<open>With \<^verbatim>\<open>ensure_ascii\<close> every character outside the range from space to tilde
  is escaped, as are the quote and the backslash.\<close>

definition escape_char :: "char \<Rightarrow> string" where
  "escape_char c =
     (if c = CHR 0x22 then [CHR 0x5C, CHR 0x22]
      else if c = CHR 0x5C then [CHR 0x5C, CHR 0x5C]
      else if c = CHR 0x0A then [CHR 0x5C, CHR ''n'']
      else if c = CHR 0x0D then [CHR 0x5C, CHR ''r'']
      else if c = CHR 0x09 then [CHR 0x5C, CHR ''t'']
      else if c = CHR 0x08 then [CHR 0x5C, CHR ''b'']
      else if c = CHR 0x0C then [CHR 0x5C, CHR ''f'']
      else if (of_char c :: nat) < 32 \<or> 126 < (of_char c :: nat)
        then [CHR 0x5C, CHR ''u'', CHR ''0'', CHR ''0'',
              hex_digit (of_char c div 16), hex_digit (of_char c mod 16)]
      else [c])"

definition encode_str :: "string \<Rightarrow> string" where
  "encode_str s = [CHR 0x22] @ concat (map escape_char s) @ [CHR 0x22]"

function digits_of :: "nat \<Rightarrow> string" where
  "digits_of n =
     (if n < 10 then [hex_digit n] else digits_of (n div 10) @ [hex_digit (n mod 10)])"
  by pat_completeness auto
termination
  by (relation "measure id") auto

declare digits_of.simps [simp del]

definition str_int :: "int \<Rightarrow> string" where
  "str_int i = (if i < 0 then CHR ''-'' # digits_of (nat (- i)) else digits_of (nat i))"

fun join :: "string \<Rightarrow> string list \<Rightarrow> string" where
  "join sep [] = []"
| "join sep [x] = x"
| "join sep (x # y # ys) = x @ sep @ join sep (y # ys)"

fun json_dumps :: "json \<Rightarrow> string" where
  "json_dumps JNull = ''null''"
| "json_dumps (JBool b) = (if b then ''true'' else ''false'')"
| "json_dumps (JInt i) = str_int i"
| "json_dumps (JStr s) = encode_str s"
| "json_dumps (JArr xs) = ''['' @ join '', '' (map json_dumps xs) @ '']''"
| "json_dumps (JObj kvs) =
     ''{'' @ join '', '' (map (\<lambda>(k, v). encode_str k @ '': '' @ json_dumps v) kvs) @ ''}''"

subsection \<open>\<^verbatim>\<open>int()\<close>, \<^verbatim>\<open>float()\<close> and double arithmetic\<close>

definition is_digits :: "string \<Rightarrow> bool" where
  "is_digits s = (s \<noteq> [] \<and> list_all (\<lambda>c. 48 \<le> (of_char c :: nat) \<and> (of_char c :: nat) \<le> 57) s)"

fun dec_value :: "nat \<Rightarrow> string \<Rightarrow> nat" where
  "dec_value acc [] = acc"
| "dec_value acc (c # cs) = dec_value (10 * acc + (of_char c - 48)) cs"

text \<open>\<^verbatim>\<open>int(x)\<close>.  CPython from 3.11 on refuses a digit string longer than 4300
  characters and earlier versions convert it, so such strings are left unmodelled.\<close>

fun py_int :: "json \<Rightarrow> error + int" where
  "py_int (JInt i) = Inr i"
| "py_int (JBool b) = Inr (if b then 1 else 0)"
| "py_int (JStr s) =
     (if is_digits s \<and> length s \<le> 4300 then Inr (int (dec_value 0 s)) else Inl Unmodelled)"
| "py_int _ = Inl TypeError"

text \<open>
  A finite IEEE double is a sign, a significand of at most 53 bits and a binary
  exponent: \<open>Double neg m e\<close> is \<open>\<plusminus> m * 2 ^ e\<close>.  Every arithmetic result is rounded to
  53 significant bits, ties to even.  The doubles met here are integers and their
  products with \<^verbatim>\<open>0.90\<close>, far from the subnormal range.
\<close>

datatype double = Double (neg: bool) (mant: nat) (expo: int)

function bit_length :: "nat \<Rightarrow> nat" where
  "bit_length n = (if n = 0 then 0 else Suc (bit_length (n div 2)))"
  by pat_completeness auto
termination
  by (relation "measure id") auto

declare bit_length.simps [simp del]

definition round_sig53 :: "nat \<Rightarrow> nat \<times> nat" where
  "round_sig53 n =
     (if bit_length n \<le> 53 then (n, 0)
      else let s = bit_length n - 53; q = n div 2 ^ s; r = n mod 2 ^ s
           in (if 2 ^ s < 2 * r \<or> (2 * r = 2 ^ s \<and> odd q) then q + 1 else q, s))"

definition mk_double :: "bool \<Rightarrow> nat \<Rightarrow> int \<Rightarrow> double" where
  "mk_double sg n e = (case round_sig53 n of (m, s) \<Rightarrow> Double sg m (e + int s))"

definition double_mul :: "double \<Rightarrow> double \<Rightarrow> double" where
  "double_mul a b = mk_double (neg a \<noteq> neg b) (mant a * mant b) (expo a + expo b)"

text \<open>The literal \<^verbatim>\<open>0.90\<close>: the double nearest to nine tenths.\<close>

definition c090 :: double where
  "c090 = Double False 8106479329266893 (- 53)"

text \<open>\<^verbatim>\<open>int(d)\<close> of a double truncates towards zero.\<close>

definition double_to_int :: "double \<Rightarrow> int" where
  "double_to_int d =
     (let a = (if 0 \<le> expo d then int (mant d) * 2 ^ nat (expo d)
               else int (mant d) div 2 ^ nat (- expo d))
      in if neg d then - a else a)"

text \<open>Conversion of an integer to a double; the largest finite double is below
  \<open>2 ^ 1024\<close>, and Python raises \<^verbatim>\<open>OverflowError\<close> beyond it.\<close>

definition int_to_double :: "int \<Rightarrow> error + double" where
  "int_to_double i =
     (let d = mk_double (i < 0) (nat \<bar>i\<bar>) 0
      in if 1024 < int (bit_length (mant d)) + expo d then Inl OverflowError else Inr d)"

text \<open>\<^verbatim>\<open>float(x)\<close>.  A digit string too large for a double becomes infinity, and the
  \<^verbatim>\<open>int()\<close> applied to the product next raises the same \<^verbatim>\<open>OverflowError\<close>.\<close>

fun py_float :: "json \<Rightarrow> error + double" where
  "py_float (JInt i) = int_to_double i"
| "py_float (JBool b) = int_to_double (if b then 1 else 0)"
| "py_float (JStr s) =
     (if is_digits s then int_to_double (int (dec_value 0 s)) else Inl Unmodelled)"
| "py_float _ = Inl TypeError"

subsection \<open>\<^verbatim>\<open>json.loads\<close>\<close>

text \<open>
  A recursive-descent reading of JSON text as \<^verbatim>\<open>json.loads\<close> does it, for the
  documents whose values the type \<^typ>\<open>json\<close> has.  The result \<open>None\<close> stands for a
  text that \<^verbatim>\<open>json.loads\<close> rejects or whose value lies outside the model (a
  fractional number, a \<^verbatim>\<open>\u\<close> escape above 255).
\<close>

definition is_ws :: "char \<Rightarrow> bool" where
  "is_ws c = (c = CHR '' '' \<or> c = CHR 0x09 \<or> c = CHR 0x0A \<or> c = CHR 0x0D)"

definition skip_ws :: "string \<Rightarrow> string" where
  "skip_ws cs = dropWhile is_ws cs"

definition is_digit :: "char \<Rightarrow> bool" where
  "is_digit c = (48 \<le> (of_char c :: nat) \<and> (of_char c :: nat) \<le> 57)"

definition hex_value :: "char \<Rightarrow> nat option" where
  "hex_value c =
     (let k = (of_char c :: nat)
      in if 48 \<le> k \<and> k \<le> 57 then Some (k - 48)
         else if 97 \<le> k \<and> k \<le> 102 then Some (k - 87)
         else if 65 \<le> k \<and> k \<le> 70 then Some (k - 55)
         else None)"

definition hex4 :: "char \<Rightarrow> char \<Rightarrow> char \<Rightarrow> char \<Rightarrow> nat option" where
  "hex4 a b c d =
     (case (hex_value a, hex_value b, hex_value c, hex_value d) of
        (Some x, Some y, Some z, Some w) \<Rightarrow> Some (((x * 16 + y) * 16 + z) * 16 + w)
      | _ \<Rightarrow> None)"

definition unescape :: "char \<Rightarrow> char option" where
  "unescape e =
     (if e = CHR 0x22 then Some (CHR 0x22)
      else if e = CHR 0x5C then Some (CHR 0x5C)
      else if e = CHR ''/'' then Some (CHR ''/'')
      else if e = CHR ''b'' then Some (CHR 0x08)
      else if e = CHR ''f'' then Some (CHR 0x0C)
      else if e = CHR ''n'' then Some (CHR 0x0A)
      else if e = CHR ''r'' then Some (CHR 0x0D)
      else if e = CHR ''t'' then Some (CHR 0x09)
      else None)"

text \<open>The characters of a string up to its closing quote; the opening quote has been
  read.  A control character inside a string is an error.\<close>

fun parse_string :: "string \<Rightarrow> (string \<times> string) option" where
  "parse_string [] = None"
| "parse_string (c # cs) =
     (if c = CHR 0x22 then Some ([], cs)
      else if c = CHR 0x5C then
        (case cs of
           [] \<Rightarrow> None
         | e # cs' \<Rightarrow>
             if e = CHR ''u'' then
               (case cs' of
                  h1 # h2 # h3 # h4 # cs'' \<Rightarrow>
                    (case hex4 h1 h2 h3 h4 of
                       None \<Rightarrow> None
                     | Some k \<Rightarrow>
                         if k < 256 then
                           (case parse_string cs'' of
                              None \<Rightarrow> None
                            | Some (s, r) \<Rightarrow> Some (char_of k # s, r))
                         else None)
                | _ \<Rightarrow> None)
             else
               (case unescape e of
                  None \<Rightarrow> None
                | Some ch \<Rightarrow>
                    (case parse_string cs' of
                       None \<Rightarrow> None
                     | Some (s, r) \<Rightarrow> Some (ch # s, r))))
      else if (of_char c :: nat) < 32 then None
      else
        (case parse_string cs of
           None \<Rightarrow> None
         | Some (s, r) \<Rightarrow> Some (c # s, r)))"

text \<open>An integer literal without sign: a single zero, or digits that do not start
  with zero.\<close>

definition parse_nat :: "string \<Rightarrow> (nat \<times> string) option" where
  "parse_nat cs =
     (case cs of
        [] \<Rightarrow> None
      | c # r \<Rightarrow>
          if c = CHR ''0'' then Some (0, r)
          else if is_digit c then Some (dec_value 0 (takeWhile is_digit cs), dropWhile is_digit cs)
          else None)"

definition parse_atom :: "string \<Rightarrow> (json \<times> string) option" where
  "parse_atom cs =
     (if take 4 cs = ''null'' then Some (JNull, drop 4 cs)
      else if take 4 cs = ''true'' then Some (JBool True, drop 4 cs)
      else if take 5 cs = ''false'' then Some (JBool False, drop 5 cs)
      else
        (case cs of
           [] \<Rightarrow> None
         | c # r \<Rightarrow>
             if c = CHR ''-'' then
               (case parse_nat r of None \<Rightarrow> None | Some (n, r') \<Rightarrow> Some (JInt (- int n), r'))
             else
               (case parse_nat cs of None \<Rightarrow> None | Some (n, r') \<Rightarrow> Some (JInt (int n), r'))))"

text \<open>\<^verbatim>\<open>d[k] = v\<close> on a dictionary: a key already present keeps its place.\<close>

fun dict_set :: "string \<Rightarrow> json \<Rightarrow> (string \<times> json) list \<Rightarrow> (string \<times> json) list" where
  "dict_set k v [] = [(k, v)]"
| "dict_set k v ((k', v') # kvs) =
     (if k = k' then (k, v) # kvs else (k', v') # dict_set k v kvs)"

definition make_dict :: "(string \<times> json) list \<Rightarrow> (string \<times> json) list" where
  "make_dict kvs = foldl (\<lambda>d (k, v). dict_set k v d) [] kvs"

text \<open>
  Values, the elements of a non-empty array and the members of a non-empty object.
  Each function is entered with the white space before it skipped.  The first
  argument bounds the number of nested calls; the length of the text is enough.
\<close>

fun parse_value :: "nat \<Rightarrow> string \<Rightarrow> (json \<times> string) option"
  and parse_elems :: "nat \<Rightarrow> string \<Rightarrow> (json list \<times> string) option"
  and parse_members :: "nat \<Rightarrow> string \<Rightarrow> ((string \<times> json) list \<times> string) option"
where
  "parse_value 0 cs = None"
| "parse_value (Suc n) cs =
     (case cs of
        [] \<Rightarrow> None
      | c # r \<Rightarrow>
          if c = CHR 0x22 then
            (case parse_string r of None \<Rightarrow> None | Some (s, r') \<Rightarrow> Some (JStr s, r'))
          else if c = CHR ''['' then
            (case skip_ws r of
               [] \<Rightarrow> None
             | d # r' \<Rightarrow>
                 if d = CHR '']'' then Some (JArr [], r')
                 else
                   (case parse_elems n (d # r') of
                      None \<Rightarrow> None
                    | Some (vs, r'') \<Rightarrow> Some (JArr vs, r'')))
          else if c = CHR ''{'' then
            (case skip_ws r of
               [] \<Rightarrow> None
             | d # r' \<Rightarrow>
                 if d = CHR ''}'' then Some (JObj [], r')
                 else
                   (case parse_members n (d # r') of
                      None \<Rightarrow> None
                    | Some (kvs, r'') \<Rightarrow> Some (JObj (make_dict kvs), r'')))
          else parse_atom cs)"
| "parse_elems 0 cs = None"
| "parse_elems (Suc n) cs =
     (case parse_value n cs of
        None \<Rightarrow> None
      | Some (v, r) \<Rightarrow>
          (case skip_ws r of
             [] \<Rightarrow> None
           | d # r' \<Rightarrow>
               if d = CHR '','' then
                 (case parse_elems n (skip_ws r') of
                    None \<Rightarrow> None
                  | Some (vs, r'') \<Rightarrow> Some (v # vs, r''))
               else if d = CHR '']'' then Some ([v], r')
               else None))"
| "parse_members 0 cs = None"
| "parse_members (Suc n) cs =
     (case cs of
        [] \<Rightarrow> None
      | c # r \<Rightarrow>
          if c \<noteq> CHR 0x22 then None
          else
            (case parse_string r of
               None \<Rightarrow> None
             | Some (k, r1) \<Rightarrow>
                 (case skip_ws r1 of
                    [] \<Rightarrow> None
                  | d # r2 \<Rightarrow>
                      if d \<noteq> CHR '':'' then None
                      else
                        (case parse_value n (skip_ws r2) of
                           None \<Rightarrow> None
                         | Some (v, r3) \<Rightarrow>
                             (case skip_ws r3 of
                                [] \<Rightarrow> None
                              | d' # r4 \<Rightarrow>
                                  if d' = CHR '','' then
                                    (case parse_members n (skip_ws r4) of
                                       None \<Rightarrow> None
                                     | Some (kvs, r5) \<Rightarrow> Some ((k, v) # kvs, r5))
                                  else if d' = CHR ''}'' then Some ([(k, v)], r4)
                                  else None)))))"

definition json_loads :: "string \<Rightarrow> json option" where
  "json_loads s =
     (case parse_value (Suc (length s)) (skip_ws s) of
        None \<Rightarrow> None
      | Some (v, r) \<Rightarrow> if skip_ws r = [] then Some v else None)"

text \<open>A value whose dictionaries have distinct keys, as every Python value has.\<close>

fun wf_json :: "json \<Rightarrow> bool" where
  "wf_json (JArr vs) = list_all wf_json vs"
| "wf_json (JObj kvs) = (distinct (map fst kvs) \<and> list_all (\<lambda>(k, v). wf_json v) kvs)"
| "wf_json _ = True"

text \<open>What may follow a value in a text: not a digit.\<close>

definition ok_rest :: "string \<Rightarrow> bool" where
  "ok_rest rest = (case rest of [] \<Rightarrow> True | c # _ \<Rightarrow> \<not> is_digit c)"

section \<open>Module state\<close>

text \<open>
  The module keeps its state in global variables.  The options set from the command
  line are strings; the three values taken from the token endpoint's answer are
  whatever JSON values the answer held.  \<open>sent\<close> is not a variable of the module: it
  records, oldest first, the text frames handed to \<^verbatim>\<open>web_socket_app.send\<close>, which is
  taken to accept every frame.  Printing to standard output is left out.
\<close>

record globals =
  app_id :: string
  auth_url :: string
  password :: string
  position :: string
  user :: string
  clientid :: string
  client_secret :: string
  scope :: string
  ric :: string
  service :: string
  sts_token :: json
  refresh_token :: json
  expire_time :: json
  original_expire_time :: json
  web_socket_open :: bool
  logged_in :: bool
  sent :: "string list"

definition ws_send :: "globals \<Rightarrow> json \<Rightarrow> globals" where
  "ws_send g frame = g\<lparr>sent := sent g @ [json_dumps frame]\<rparr>"

section \<open>The stream handlers\<close>

definition send_market_price_request :: "globals \<Rightarrow> string \<Rightarrow> globals" where
  "send_market_price_request g ric_name =
     ws_send g (JObj [(''ID'', JInt 2),
                      (''Key'', JObj [(''Name'', JStr ric_name),
                                      (''Service'', JStr (service g))])])"

text \<open>\<^verbatim>\<open>sys.exit(1)\<close> leaves the function before \<^verbatim>\<open>logged_in\<close> is assigned.  The
  second operand of \<^verbatim>\<open>or\<close> is evaluated only when the first is false.\<close>

definition process_login_response :: "globals \<Rightarrow> json \<Rightarrow> unit result \<times> globals" where
  "process_login_response g message_json =
     (case subscript message_json ''State'' of
        Inl e \<Rightarrow> (Raise e, g)
      | Inr st \<Rightarrow>
          (case subscript st ''Stream'' of
             Inl e \<Rightarrow> (Raise e, g)
           | Inr stream \<Rightarrow>
               if stream \<noteq> JStr ''Open'' then (Exit 1, g)
               else
                 (case subscript st ''Data'' of
                    Inl e \<Rightarrow> (Raise e, g)
                  | Inr data \<Rightarrow>
                      if data \<noteq> JStr ''Ok'' then (Exit 1, g)
                      else (Return (), send_market_price_request (g\<lparr>logged_in := True\<rparr>) (ric g)))))"

definition process_message :: "globals \<Rightarrow> json \<Rightarrow> unit result \<times> globals" where
  "process_message g message_json =
     (case subscript message_json ''Type'' of
        Inl e \<Rightarrow> (Raise e, g)
      | Inr message_type \<Rightarrow>
          if message_type = JStr ''Refresh'' then
            (if has_key ''Domain'' message_json then
               (case subscript message_json ''Domain'' of
                  Inl e \<Rightarrow> (Raise e, g)
                | Inr message_domain \<Rightarrow>
                    if message_domain = JStr ''Login'' then process_login_response g message_json
                    else (Return (), g))
             else (Return (), g))
          else if message_type = JStr ''Ping'' then
            (Return (), ws_send g (JObj [(''Type'', JStr ''Pong'')]))
          else (Return (), g))"

text \<open>The dictionary \<^verbatim>\<open>login_json\<close> once the three placeholders of the literal have
  been overwritten in place and, for a reissue, the key \<^verbatim>\<open>Refresh\<close> has been added
  at the end.\<close>

definition login_json :: "globals \<Rightarrow> json \<Rightarrow> bool \<Rightarrow> json" where
  "login_json g auth_token is_refresh_token =
     JObj ([(''ID'', JInt 1),
            (''Domain'', JStr ''Login''),
            (''Key'', JObj [(''NameType'', JStr ''AuthnToken''),
                            (''Elements'', JObj [(''ApplicationId'', JStr (app_id g)),
                                                 (''Position'', JStr (position g)),
                                                 (''AuthenticationToken'', auth_token)])])]
           @ (if is_refresh_token then [(''Refresh'', JBool False)] else []))"

definition send_login_request :: "globals \<Rightarrow> json \<Rightarrow> bool \<Rightarrow> globals" where
  "send_login_request g auth_token is_refresh_token =
     ws_send g (login_json g auth_token is_refresh_token)"

text \<open>\<^verbatim>\<open>on_error\<close> prints the error and does nothing else.\<close>

definition on_error :: "globals \<Rightarrow> string \<Rightarrow> globals" where
  "on_error g err = g"

definition on_close :: "globals \<Rightarrow> globals" where
  "on_close g = g\<lparr>web_socket_open := False\<rparr>"

definition on_open :: "globals \<Rightarrow> globals" where
  "on_open g = send_login_request (g\<lparr>web_socket_open := True\<rparr>) (sts_token g) False"

section \<open>The token endpoint\<close>

text \<open>
  What \<^verbatim>\<open>requests.post\<close> gives back: an exception of the transport
  (\<^verbatim>\<open>RequestException\<close>), or a response with a status code, headers and a body.  The
  body is \<open>None\<close> when it is not JSON, so that \<^verbatim>\<open>r.json()\<close> raises.  Looking up a
  header that the response does not have raises \<^verbatim>\<open>KeyError\<close>; a header value is a
  string (the value \<open>None\<close> is kept for the source's test \<^verbatim>\<open>is not None\<close>, which no
  response of a server fails).  The server's behaviour is a script: the list of its
  answers, one for each request in order.
\<close>

datatype response =
    RequestException
  | Response (status_code: int) (headers: "(string \<times> string option) list") (body: "json option")

text \<open>
  \<^verbatim>\<open>r.headers[name]\<close>.  The headers of a response are a dictionary that compares
  its keys without regard to case: both the stored names and the name asked for are
  put through \<^verbatim>\<open>str.lower()\<close>, which on the first 256 code points moves the letters
  A to Z and the capital letters of the Latin-1 range to their small forms.  The
  names of a response are taken to be distinct up to case.
\<close>

definition lower_char :: "char \<Rightarrow> char" where
  "lower_char c =
     (let k = (of_char c :: nat)
      in if (65 \<le> k \<and> k \<le> 90) \<or> (192 \<le> k \<and> k \<le> 214) \<or> (216 \<le> k \<and> k \<le> 222)
         then char_of (k + 32) else c)"

definition header_item :: "(string \<times> string option) list \<Rightarrow> string \<Rightarrow> string option option" where
  "header_item hdrs name =
     map_of (map (\<lambda>(k, v). (map lower_char k, v)) hdrs) (map lower_char name)"

record request =
  req_url :: string
  req_data :: "(string \<times> json) list"
  req_auth :: "string \<times> string"

text \<open>The form fields: password grant when \<^verbatim>\<open>current_refresh_token\<close> is false as a
  truth value, refresh-token grant otherwise; the client secret is added when set.\<close>

definition token_request :: "globals \<Rightarrow> json \<Rightarrow> string \<Rightarrow> request" where
  "token_request g current_refresh_token url =
     \<lparr>req_url = url,
      req_data =
        (if \<not> truthy current_refresh_token
         then [(''username'', JStr (user g)), (''password'', JStr (password g)),
               (''client_id'', JStr (clientid g)), (''grant_type'', JStr ''password''),
               (''takeExclusiveSignOnControl'', JBool True), (''scope'', JStr (scope g))]
         else [(''username'', JStr (user g)), (''client_id'', JStr (clientid g)),
               (''refresh_token'', current_refresh_token),
               (''grant_type'', JStr ''refresh_token'')])
        @ (if client_secret g \<noteq> [] then [(''client_secret'', JStr (client_secret g))] else []),
      req_auth = (clientid g, client_secret g)\<rparr>"

type_synonym credential = "json \<times> json \<times> json"

definition no_token :: credential where
  "no_token = (JNull, JNull, JNull)"

definition is_redirect :: "int \<Rightarrow> bool" where
  "is_redirect st = (st = 301 \<or> st = 302 \<or> st = 307 \<or> st = 308)"

text \<open>A recursive call's requests follow the request of the caller.\<close>

definition after_request ::
  "request \<Rightarrow> credential result \<times> request list \<times> response list
     \<Rightarrow> credential result \<times> request list \<times> response list" where
  "after_request rq out = (case out of (res, rqs, rest) \<Rightarrow> (res, rq # rqs, rest))"

text \<open>\<^verbatim>\<open>if url is None: url = auth_url\<close>.\<close>

definition url_or_default :: "globals \<Rightarrow> string option \<Rightarrow> string" where
  "url_or_default g url = (case url of None \<Rightarrow> auth_url g | Some u \<Rightarrow> u)"

text \<open>
  \<^verbatim>\<open>get_sts_token(current_refresh_token, url=None)\<close>.  The result comes with the
  requests made, in order, and the part of the script not yet consumed.  Every call
  posts one request and recurses on the remaining script; the recursion is the
  source's own, which has no bound.  CPython ends a chain of about a thousand nested
  calls with \<^verbatim>\<open>RecursionError\<close>, at a depth that depends on the interpreter; the
  model follows the recursion as far as the script goes and so describes the runs
  that stay below that depth.
\<close>

fun get_sts_token ::
  "globals \<Rightarrow> json \<Rightarrow> string option \<Rightarrow> response list
     \<Rightarrow> credential result \<times> request list \<times> response list" where
  "get_sts_token g current_refresh_token url [] =
     (Running, [token_request g current_refresh_token (url_or_default g url)], [])"
| "get_sts_token g current_refresh_token url (r # rest) =
     (let rq = token_request g current_refresh_token (url_or_default g url)
      in case r of
           RequestException \<Rightarrow> (Return no_token, [rq], rest)
         | Response st hdrs bdy \<Rightarrow>
             if st = 200 then
               (case bdy of
                  None \<Rightarrow> (Raise JSONDecodeError, [rq], rest)
                | Some auth_json \<Rightarrow>
                    (case subscript auth_json ''access_token'' of
                       Inl e \<Rightarrow> (Raise e, [rq], rest)
                     | Inr a \<Rightarrow>
                         (case subscript auth_json ''refresh_token'' of
                            Inl e \<Rightarrow> (Raise e, [rq], rest)
                          | Inr rt \<Rightarrow>
                              (case subscript auth_json ''expires_in'' of
                                 Inl e \<Rightarrow> (Raise e, [rq], rest)
                               | Inr ex \<Rightarrow> (Return (a, rt, ex), [rq], rest)))))
             else if is_redirect st then
               (case header_item hdrs ''Location'' of
                  None \<Rightarrow> (Raise KeyError, [rq], rest)
                | Some new_host \<Rightarrow>
                    (case new_host of
                       Some h \<Rightarrow> after_request rq (get_sts_token g current_refresh_token (Some h) rest)
                     | None \<Rightarrow> (Return no_token, [rq], rest)))
             else if st = 400 \<or> st = 401 then
               (if truthy current_refresh_token
                then after_request rq (get_sts_token g JNull None rest)
                else (Return no_token, [rq], rest))
             else if st = 403 \<or> st = 451 then (Return no_token, [rq], rest)
             else after_request rq (get_sts_token g current_refresh_token None rest))"

section \<open>Start-up and the renewal loop\<close>

text \<open>What the main thread does besides posting to the token endpoint.\<close>

datatype event = Sleep int | Post request

text \<open>The argument of \<^verbatim>\<open>time.sleep\<close>: \<^verbatim>\<open>int(float(expire_time) * 0.90)\<close>.
  \<^verbatim>\<open>time.sleep\<close> raises \<^verbatim>\<open>ValueError\<close> on a negative length.  How long a sleep
  it accepts depends on the platform (the shortest limit is \<open>2 ^ 32\<close> milliseconds,
  some 49 days); a longer one is left unmodelled.\<close>

definition sleep_seconds :: "json \<Rightarrow> error + int" where
  "sleep_seconds ex =
     (case py_float ex of
        Inl e \<Rightarrow> Inl e
      | Inr d \<Rightarrow>
          (let w = double_to_int (double_mul d c090)
           in if w < 0 then Inl ValueError
              else if 4294967 < w then Inl Unmodelled
              else Inr w))"

text \<open>The tuple assignment \<^verbatim>\<open>sts_token, refresh_token, expire_time = ...\<close>.\<close>

definition store_token :: "globals \<Rightarrow> credential \<Rightarrow> globals" where
  "store_token g c =
     (case c of (a, rt, ex) \<Rightarrow> g\<lparr>sts_token := a, refresh_token := rt, expire_time := ex\<rparr>)"

text \<open>The first acquisition, before the connection is opened.\<close>

definition initial_token ::
  "globals \<Rightarrow> response list \<Rightarrow> unit result \<times> globals \<times> event list \<times> response list" where
  "initial_token g rs =
     (case get_sts_token g JNull None rs of
        (Return c, rqs, rest) \<Rightarrow>
          (let g1 = store_token g c
           in if \<not> truthy (sts_token g1) then (Exit 1, g1, map Post rqs, rest)
              else (Return (), g1\<lparr>original_expire_time := expire_time g1\<rparr>, map Post rqs, rest))
      | (Raise e, rqs, rest) \<Rightarrow> (Raise e, g, map Post rqs, rest)
      | (Exit n, rqs, rest) \<Rightarrow> (Exit n, g, map Post rqs, rest)
      | (Running, rqs, rest) \<Rightarrow> (Running, g, map Post rqs, rest))"

text \<open>The end of one pass: \<^verbatim>\<open>if logged_in: send_login_request(sts_token, True)\<close>.\<close>

definition update_token :: "globals \<Rightarrow> globals" where
  "update_token g = (if logged_in g then send_login_request g (sts_token g) True else g)"

text \<open>The re-acquisition with the password, entered when the expiry has changed.\<close>

definition retry_with_password ::
  "globals \<Rightarrow> event list \<Rightarrow> response list
     \<Rightarrow> unit result \<times> globals \<times> event list \<times> response list" where
  "retry_with_password g evs rs =
     (case get_sts_token g JNull None rs of
        (Return c, rqs, rest) \<Rightarrow>
          (let g1 = store_token g c
           in if \<not> truthy (sts_token g1) then (Exit 1, g1, evs @ map Post rqs, rest)
              else (Return (), update_token (g1\<lparr>original_expire_time := expire_time g1\<rparr>),
                    evs @ map Post rqs, rest))
      | (Raise e, rqs, rest) \<Rightarrow> (Raise e, g, evs @ map Post rqs, rest)
      | (Exit n, rqs, rest) \<Rightarrow> (Exit n, g, evs @ map Post rqs, rest)
      | (Running, rqs, rest) \<Rightarrow> (Running, g, evs @ map Post rqs, rest))"

text \<open>
  One pass through the body of \<^verbatim>\<open>while True\<close>.  The handlers of the stream run on
  another thread; the pass reads \<^verbatim>\<open>logged_in\<close> once, at its end, and here it reads
  the value of the state it was given.
\<close>

definition renewal_pass ::
  "globals \<Rightarrow> response list \<Rightarrow> unit result \<times> globals \<times> event list \<times> response list" where
  "renewal_pass g rs =
     (case sleep_seconds (expire_time g) of
        Inl e \<Rightarrow> (Raise e, g, [], rs)
      | Inr w \<Rightarrow>
          (case get_sts_token g (refresh_token g) None rs of
             (Return c, rqs, rest) \<Rightarrow>
               (let g1 = store_token g c; evs = Sleep w # map Post rqs
                in if \<not> truthy (sts_token g1) then (Exit 1, g1, evs, rest)
                   else
                     (case py_int (expire_time g1) of
                        Inl e \<Rightarrow> (Raise e, g1, evs, rest)
                      | Inr new_expiry \<Rightarrow>
                          (case py_int (original_expire_time g1) of
                             Inl e \<Rightarrow> (Raise e, g1, evs, rest)
                           | Inr old_expiry \<Rightarrow>
                               if new_expiry \<noteq> old_expiry then retry_with_password g1 evs rest
                               else (Return (), update_token g1, evs, rest))))
           | (Raise e, rqs, rest) \<Rightarrow> (Raise e, g, Sleep w # map Post rqs, rest)
           | (Exit n, rqs, rest) \<Rightarrow> (Exit n, g, Sleep w # map Post rqs, rest)
           | (Running, rqs, rest) \<Rightarrow> (Running, g, Sleep w # map Post rqs, rest)))"

text \<open>\<^verbatim>\<open>while True\<close>, cut after a given number of passes: the loop itself ends only
  by an exit or an exception.\<close>

fun renewal_loop ::
  "nat \<Rightarrow> globals \<Rightarrow> response list \<Rightarrow> unit result \<times> globals \<times> event list \<times> response list" where
  "renewal_loop 0 g rs = (Running, g, [], rs)"
| "renewal_loop (Suc n) g rs =
     (case renewal_pass g rs of
        (Return u, g1, evs, rest) \<Rightarrow>
          (case renewal_loop n g1 rest of (res, g2, evs2, rest2) \<Rightarrow> (res, g2, evs @ evs2, rest2))
      | out \<Rightarrow> out)"

text \<open>The events of a pass.\<close>

definition pass_events ::
  "unit result \<times> globals \<times> event list \<times> response list \<Rightarrow> event list" where
  "pass_events out = fst (snd (snd out))"

section \<open>A sample session\<close>

text \<open>The defaults of the module with the required options filled in, after a first
  token of 600 seconds; used where a statement is checked on a concrete run.\<close>

definition session0 :: globals where
  "session0 =
     \<lparr>app_id = ''256'',
      auth_url = ''https://api.refinitiv.com:443/auth/oauth2/v1/token'',
      password = ''secret'', position = ''127.0.0.1/net'', user = ''alice'',
      clientid = ''cid'', client_secret = [], scope = ''trapi'', ric = ''/TRI.N'',
      service = ''ELEKTRON_DD'', sts_token = JStr ''A1'', refresh_token = JStr ''R1'',
      expire_time = JStr ''600'', original_expire_time = JStr ''600'',
      web_socket_open = True, logged_in = False, sent = []\<rparr>"

text \<open>A token endpoint answer with the three fields.\<close>

definition token_body :: "string \<Rightarrow> string \<Rightarrow> json \<Rightarrow> json" where
  "token_body a r ex =
     JObj [(''access_token'', JStr a), (''expires_in'', ex), (''refresh_token'', JStr r)]"

section \<open>Close and error handlers\<close>

text \<open>
  Claim C1 says that after the connection is closed, or after a transport error, the
  flag \<^verbatim>\<open>logged_in\<close> is false.  The module never assigns \<^verbatim>\<open>False\<close> to
  \<^verbatim>\<open>logged_in\<close>: a session that was logged in is still marked so after either
  handler.
\<close>

theorem logged_in_survives_close_counterexample:
  "logged_in (on_close (session0\<lparr>logged_in := True\<rparr>))
   \<and> logged_in (on_error (session0\<lparr>logged_in := True\<rparr>) ''Connection reset by peer'')"
  by (simp add: on_close_def on_error_def)

text \<open>
  Claim C1, amended: the close handler resets \<^verbatim>\<open>web_socket_open\<close> and nothing
  else, the error handler changes no state, and \<^verbatim>\<open>logged_in\<close> keeps through both
  the value it had.
\<close>

theorem close_and_error_keep_logged_in:
  "on_close g = g\<lparr>web_socket_open := False\<rparr>
   \<and> web_socket_open (on_close g) = False
   \<and> logged_in (on_close g) = logged_in g
   \<and> on_error g err = g"
  by (simp add: on_close_def on_error_def)

section \<open>Inbound messages\<close>


text \<open>
  Claim C10: a message of type \<^verbatim>\<open>Ping\<close>, whatever the state of the session, makes
  \<^verbatim>\<open>process_message\<close> send the one frame \<^verbatim>\<open>{"Type": "Pong"}\<close> and return; the
  state after it is the state before with that frame added to what was sent, so the
  login flag, the tokens and the expiry values are untouched.
\<close>

theorem ping_sends_one_pong:
  assumes "subscript message_json ''Type'' = Inr (JStr ''Ping'')"
  shows \<open>process_message g message_json
           = (Return (), g\<lparr>sent := sent g @ [''{"Type": "Pong"}'']\<rparr>)\<close>
  using assms
  by (simp add: process_message_def ws_send_def encode_str_def escape_char_def)

theorem ping_sends_one_pong_witness:
  \<open>subscript (JObj [(''Type'', JStr ''Ping'')]) ''Type'' = Inr (JStr ''Ping'')
   \<and> process_message session0 (JObj [(''Type'', JStr ''Ping'')])
       = (Return (), session0\<lparr>sent := [''{"Type": "Pong"}'']\<rparr>)
   \<and> logged_in (snd (process_message (session0\<lparr>logged_in := True\<rparr>)
                         (JObj [(''Type'', JStr ''Ping'')])))\<close>
proof -
  have h: "subscript (JObj [(''Type'', JStr ''Ping'')]) ''Type'' = Inr (JStr ''Ping'')"
    by simp
  show ?thesis
    using h ping_sends_one_pong [OF h, of session0]
      ping_sends_one_pong [OF h, of "session0\<lparr>logged_in := True\<rparr>"]
    by (simp add: session0_def)
qed




text \<open>No handler of the stream takes the login flag back once it is set.\<close>

lemma logged_in_process_message:
  "logged_in g \<Longrightarrow> logged_in (snd (process_message g message_json))"
  by (auto simp: process_message_def process_login_response_def ws_send_def
      send_market_price_request_def split: sum.splits)

lemma logged_in_on_open: "logged_in (on_open g) = logged_in g"
  by (simp add: on_open_def send_login_request_def ws_send_def)

section \<open>Acquiring a token\<close>

lemma after_request_eq:
  "after_request rq out = (res, rqs, rest)
     \<longleftrightarrow> (\<exists>rqs'. out = (res, rqs', rest) \<and> rqs = rq # rqs')"
  by (cases out) (auto simp: after_request_def)

text \<open>The function reads the options only: two states with the same endpoint and
  the same form fields get the same answers.\<close>

lemma get_sts_token_config:
  assumes "auth_url g' = auth_url g" and "\<And>t u. token_request g' t u = token_request g t u"
  shows "get_sts_token g' tok url rs = get_sts_token g tok url rs"
proof (induction rs arbitrary: tok url)
  case Nil
  have "url_or_default g' url = url_or_default g url" for url
    using assms(1) by (simp add: url_or_default_def split: option.splits)
  with assms(2) show ?case by simp
next
  case (Cons r rs)
  have "url_or_default g' url = url_or_default g url" for url
    using assms(1) by (simp add: url_or_default_def split: option.splits)
  with assms(2) Cons show ?case
    by (cases r) (simp_all add: Let_def split: option.splits)
qed

lemma get_sts_token_store_token:
  "get_sts_token (store_token g c) tok url rs = get_sts_token g tok url rs"
  by (rule get_sts_token_config) (auto simp: store_token_def token_request_def split: prod.splits)

text \<open>A call that returns a token has consumed a 200 answer last, and the three
  values it returns are the three fields of that answer.\<close>

lemma get_sts_token_consumes:
  assumes "get_sts_token g tok url rs = (Return (a, r, e), rqs, rest)" and "truthy a"
  shows "\<exists>used h b. rs = used @ [Response 200 h (Some b)] @ rest
           \<and> length rqs = Suc (length used)
           \<and> subscript b ''access_token'' = Inr a
           \<and> subscript b ''refresh_token'' = Inr r
           \<and> subscript b ''expires_in'' = Inr e"
  supply get_sts_token.simps [simp del]
  using assms
proof (induction rs arbitrary: tok url rqs)
  case Nil
  then show ?case by (simp add: get_sts_token.simps)
next
  case (Cons x rs)
  define L where "L = get_sts_token g tok url (x # rs)"
  let ?rq = "token_request g tok (url_or_default g url)"
  from Cons.prems(1) have L: "L = (Return (a, r, e), rqs, rest)" by (simp add: L_def)
  show ?case
  proof (cases x)
    case RequestException
    then have "L = (Return no_token, [?rq], rs)" by (simp add: L_def get_sts_token.simps)
    with L Cons.prems(2) show ?thesis by (simp add: no_token_def)
  next
    case (Response st hdrs bdy)
    have nx: "st = 200 \<or> L =
        (if is_redirect st then
           (case header_item hdrs ''Location'' of
              None \<Rightarrow> (Raise KeyError, [?rq], rs)
            | Some None \<Rightarrow> (Return no_token, [?rq], rs)
            | Some (Some h) \<Rightarrow> after_request ?rq (get_sts_token g tok (Some h) rs))
         else if st = 400 \<or> st = 401 then
           (if truthy tok then after_request ?rq (get_sts_token g JNull None rs)
            else (Return no_token, [?rq], rs))
         else if st = 403 \<or> st = 451 then (Return no_token, [?rq], rs)
         else after_request ?rq (get_sts_token g tok None rs))"
      using Response by (simp add: L_def Let_def get_sts_token.simps)
    have "st = 200
        \<or> (\<exists>tok' url'. L = after_request ?rq (get_sts_token g tok' url' rs))
        \<or> (L = (Return no_token, [?rq], rs) \<or> L = (Raise KeyError, [?rq], rs))"
    proof (cases "header_item hdrs ''Location''")
      case None
      with nx show ?thesis by (auto split: if_splits)
    next
      case (Some new_host)
      with nx show ?thesis by (cases new_host) (auto split: if_splits)
    qed
    then consider (ok) "st = 200"
      | (again) tok' url' where "L = after_request ?rq (get_sts_token g tok' url' rs)"
      | (stop) "L = (Return no_token, [?rq], rs) \<or> L = (Raise KeyError, [?rq], rs)"
      by blast
    then show ?thesis
    proof cases
      case ok
      with L Response have "rs = rest \<and> (\<exists>b. bdy = Some b
          \<and> subscript b ''access_token'' = Inr a
          \<and> subscript b ''refresh_token'' = Inr r
          \<and> subscript b ''expires_in'' = Inr e) \<and> rqs = [?rq]"
        by (auto simp: L_def Let_def get_sts_token.simps split: option.splits sum.splits)
      with ok Response show ?thesis by (intro exI [of _ "[]"] exI [of _ hdrs]) auto
    next
      case again
      with L obtain rqs' where
        "get_sts_token g tok' url' rs = (Return (a, r, e), rqs', rest)" "rqs = ?rq # rqs'"
        by (auto simp: after_request_eq)
      from Cons.IH [OF this(1) Cons.prems(2)] obtain used h b where
        "rs = used @ [Response 200 h (Some b)] @ rest" "length rqs' = Suc (length used)"
        "subscript b ''access_token'' = Inr a" "subscript b ''refresh_token'' = Inr r"
        "subscript b ''expires_in'' = Inr e"
        by blast
      with \<open>rqs = ?rq # rqs'\<close> show ?thesis
        by (intro exI [of _ "x # used"] exI [of _ h] exI [of _ b]) auto
    next
      case stop
      with L Cons.prems(2) show ?thesis by (auto simp: no_token_def)
    qed
  qed
qed

text \<open>
  Claim C4: a call made with a refresh token that is answered 400 or 401 continues
  as one call with no refresh token, that is with the password grant, at the
  configured endpoint; when that request is answered 400 or 401 in its turn the
  function returns the triple of \<^verbatim>\<open>None\<close> after these two requests, leaving the
  rest of the script untouched.
\<close>

theorem refresh_rejected_retries_with_password:
  assumes "truthy tok" and "st = 400 \<or> st = 401" and "st2 = 400 \<or> st2 = 401"
  shows "get_sts_token g tok url (Response st hdrs bdy # rest)
           = after_request (token_request g tok (url_or_default g url))
               (get_sts_token g JNull None rest)
         \<and> get_sts_token g tok url (Response st hdrs bdy # Response st2 hdrs2 bdy2 # rest2)
           = (Return no_token,
              [token_request g tok (url_or_default g url), token_request g JNull (auth_url g)],
              rest2)
         \<and> map_of (req_data (token_request g JNull (auth_url g))) ''grant_type''
           = Some (JStr ''password'')
         \<and> map_of (req_data (token_request g JNull (auth_url g))) ''refresh_token'' = None"
  using assms
  by (auto simp: is_redirect_def after_request_def token_request_def url_or_default_def)

theorem refresh_rejected_retries_with_password_witness:
  "truthy (JStr ''R_old'')
   \<and> get_sts_token session0 (JStr ''R_old'') None
       [Response 401 [] None, Response 400 [] None, Response 200 [] None]
     = (Return no_token,
        [token_request session0 (JStr ''R_old'') (auth_url session0),
         token_request session0 JNull (auth_url session0)],
        [Response 200 [] None])
   \<and> get_sts_token session0 (JStr ''R_old'') None
       [Response 401 [] None, Response 200 [] (Some (token_body ''A2'' ''R2'' (JStr ''600'')))]
     = (Return (JStr ''A2'', JStr ''R2'', JStr ''600''),
        [token_request session0 (JStr ''R_old'') (auth_url session0),
         token_request session0 JNull (auth_url session0)],
        [])"
proof -
  have t: "truthy (JStr ''R_old'')" by simp
  have s1: "(401::int) = 400 \<or> (401::int) = 401" and s2: "(400::int) = 400 \<or> (400::int) = 401"
    by simp_all
  note w = refresh_rejected_retries_with_password [OF t s1 s2, of session0 None]
  show ?thesis
    using t w [of "[]" None "[Response 400 [] None, Response 200 [] None]" "[]" None "[Response 200 [] None]"]
      w [of "[]" None "[Response 200 [] (Some (token_body ''A2'' ''R2'' (JStr ''600'')))]"]
    by (simp add: url_or_default_def after_request_def token_body_def)
qed

text \<open>
  Claim C5: a request answered 403 or 451 ends the call at once: the function returns
  the triple of \<^verbatim>\<open>None\<close>, that request is the only one it has made, and nothing more
  of the script is consumed.
\<close>

theorem forbidden_fails_without_retry:
  assumes "st = 403 \<or> st = 451"
  shows "get_sts_token g tok url (Response st hdrs bdy # rest)
         = (Return no_token, [token_request g tok (url_or_default g url)], rest)"
  using assms by (auto simp: is_redirect_def)

theorem forbidden_fails_without_retry_witness:
  "get_sts_token session0 (JStr ''R1'') None
     [Response 403 [] None, Response 200 [] (Some (token_body ''A2'' ''R2'' (JStr ''600'')))]
   = (Return no_token, [token_request session0 (JStr ''R1'') (auth_url session0)],
      [Response 200 [] (Some (token_body ''A2'' ''R2'' (JStr ''600'')))])
   \<and> get_sts_token session0 JNull None [Response 451 [] None]
   = (Return no_token, [token_request session0 JNull (auth_url session0)], [])"
proof -
  have a: "(403::int) = 403 \<or> (403::int) = 451" and b: "(451::int) = 403 \<or> (451::int) = 451"
    by simp_all
  show ?thesis
    using forbidden_fails_without_retry [OF a, of session0 "JStr ''R1''" None]
      forbidden_fails_without_retry [OF b, of session0 JNull None]
    by (simp add: url_or_default_def)
qed

lemma redirect_without_location:
  assumes "is_redirect st" and "header_item hdrs ''Location'' = None"
  shows "get_sts_token g tok url (Response st hdrs bdy # rest)
         = (Raise KeyError, [token_request g tok (url_or_default g url)], rest)"
  using assms by (auto simp: is_redirect_def)

lemma redirect_with_location:
  assumes "is_redirect st" and "header_item hdrs ''Location'' = Some (Some h)"
  shows "get_sts_token g tok url (Response st hdrs bdy # rest)
         = after_request (token_request g tok (url_or_default g url))
             (get_sts_token g tok (Some h) rest)"
  using assms by (auto simp: is_redirect_def)

text \<open>A redirect is followed whatever the case of the header's name, with the same
  refresh token and at the address the header gives.\<close>

lemma lower_location:
  "lower_char (CHR ''L'') = CHR ''l''" "lower_char (CHR ''l'') = CHR ''l''"
  by code_simp+

lemma redirect_followed_any_case:
  "get_sts_token session0 (JStr ''R1'') None
     [Response 307 [(''location'', Some ''https://eu.example/token'')] None,
      Response 403 [] None]
   = (Return no_token,
      [token_request session0 (JStr ''R1'') (auth_url session0),
       token_request session0 (JStr ''R1'') ''https://eu.example/token''],
      [])"
  by (simp add: is_redirect_def url_or_default_def header_item_def lower_location
      after_request_def)

text \<open>
  Claim C6 expects a redirect without a \<^verbatim>\<open>Location\<close> header to end in the returned
  failure.  The source reads the header with \<^verbatim>\<open>r.headers['Location']\<close>, which
  raises \<^verbatim>\<open>KeyError\<close> when the header is absent, so the \<^verbatim>\<open>return None, None, None\<close>
  written for that case is never reached by such a response.
\<close>

theorem redirect_without_location_raises:
  "get_sts_token session0 JNull None [Response 302 [(''Content-Length'', Some ''0'')] None]
     = (Raise KeyError, [token_request session0 JNull (auth_url session0)], [])"
  by (simp add: is_redirect_def url_or_default_def header_item_def lower_char_def)

text \<open>
  Claim C7 expects a 200 answer that lacks one of the three fields to end in a returned
  failure.  The source indexes the parsed body directly: an answer without
  \<^verbatim>\<open>expires_in\<close> makes the call raise \<^verbatim>\<open>KeyError\<close>.
\<close>

theorem missing_field_raises_counterexample:
  "get_sts_token session0 JNull None
     [Response 200 [] (Some (JObj [(''access_token'', JStr ''A1''), (''refresh_token'', JStr ''R1'')]))]
   = (Raise KeyError, [token_request session0 JNull (auth_url session0)], [])"
  by (simp add: url_or_default_def)

text \<open>
  Claim C7, amended: on a 200 answer whose body is a JSON object the call returns
  the values of \<^verbatim>\<open>access_token\<close>, \<^verbatim>\<open>refresh_token\<close> and \<^verbatim>\<open>expires_in\<close> when the
  three are present, and raises \<^verbatim>\<open>KeyError\<close> when one of them is missing; either
  way it has made one request.
\<close>

theorem ok_answer_returns_fields_or_raises:
  "get_sts_token g tok url (Response 200 hdrs (Some (JObj kvs)) # rest)
     = ((case map_of kvs ''access_token'' of
           None \<Rightarrow> Raise KeyError
         | Some a \<Rightarrow>
             (case map_of kvs ''refresh_token'' of
                None \<Rightarrow> Raise KeyError
              | Some r \<Rightarrow>
                  (case map_of kvs ''expires_in'' of
                     None \<Rightarrow> Raise KeyError
                   | Some e \<Rightarrow> Return (a, r, e)))),
        [token_request g tok (url_or_default g url)], rest)"
  by (simp split: option.splits)

theorem ok_answer_returns_fields_or_raises_witness:
  "get_sts_token session0 JNull None
     [Response 200 [] (Some (token_body ''A2'' ''R2'' (JInt 300)))]
   = (Return (JStr ''A2'', JStr ''R2'', JInt 300),
      [token_request session0 JNull (auth_url session0)], [])"
  using ok_answer_returns_fields_or_raises
    [of session0 JNull None "[]"
      "[(''access_token'', JStr ''A2''), (''expires_in'', JInt 300), (''refresh_token'', JStr ''R2'')]" "[]"]
  by (simp add: token_body_def url_or_default_def)

section \<open>The renewal loop\<close>

subsection \<open>The product with \<^verbatim>\<open>0.90\<close>\<close>

lemma bit_length_upper: "n < 2 ^ bit_length n"
proof (induction n rule: bit_length.induct)
  case (1 n)
  show ?case
  proof (cases "n = 0")
    case True
    then show ?thesis by (simp add: bit_length.simps)
  next
    case False
    with 1 have "n div 2 < 2 ^ bit_length (n div 2)" by simp
    then have "n < 2 * 2 ^ bit_length (n div 2)" by linarith
    with False show ?thesis by (subst bit_length.simps) simp
  qed
qed

lemma bit_length_lower: "0 < n \<Longrightarrow> 2 ^ bit_length n \<le> 2 * n"
proof (induction n rule: bit_length.induct)
  case (1 n)
  show ?case
  proof (cases "n div 2 = 0")
    case True
    with 1(2) have "n = 1" by linarith
    then show ?thesis by (simp add: bit_length.simps)
  next
    case False
    with 1 have "2 ^ bit_length (n div 2) \<le> 2 * (n div 2)" by simp
    then have "2 * 2 ^ bit_length (n div 2) \<le> 2 * n" by linarith
    with 1(2) show ?thesis by (subst bit_length.simps) simp
  qed
qed

lemma bit_length_le: "n < 2 ^ k \<Longrightarrow> bit_length n \<le> k"
proof (rule ccontr)
  assume "n < 2 ^ k" and "\<not> bit_length n \<le> k"
  then have "Suc k \<le> bit_length n" by simp
  then have "(2::nat) ^ Suc k \<le> 2 ^ bit_length n" by (rule power_increasing) simp
  moreover have "0 < n" using \<open>\<not> bit_length n \<le> k\<close> by (cases "n = 0") (auto simp: bit_length.simps)
  ultimately have "2 * 2 ^ k \<le> 2 * n" using bit_length_lower [of n] by simp
  with \<open>n < 2 ^ k\<close> show False by simp
qed

lemma round_sig53_small: "n < 2 ^ 53 \<Longrightarrow> round_sig53 n = (n, 0)"
  by (simp add: round_sig53_def bit_length_le)

lemma times_090_truncated:
  fixes n :: nat
  assumes n: "n < 2 ^ 48"
  shows "case round_sig53 (n * 8106479329266893) of
           (m, s) \<Rightarrow> s \<le> 48 \<and> m div 2 ^ (53 - s) = 9 * n div 10"
proof -
  define N where "N = n * 8106479329266893"
  define k where "k = 9 * n div 10"
  have B: "(2::nat) ^ 53 = 9007199254740992" by simp
  have n': "n < 281474976710656" using n by simp
  have e1: "10 * N = 9 * n * 9007199254740992 + 2 * n" by (simp add: N_def)
  have k1: "10 * k \<le> 9 * n" and k2: "9 * n < 10 * k + 10" by (simp_all add: k_def)
  have lo: "k * 9007199254740992 \<le> N" using e1 k1 by linarith
  have "9 * n \<le> 10 * k + 9" using k2 by simp
  then have k3: "9 * n * 9007199254740992 \<le> (10 * k + 9) * 9007199254740992"
    by (rule mult_le_mono1)
  have hi: "N + X < (k + 1) * 9007199254740992" if "X \<le> 2 * n" for X
    using e1 k3 n' that by simp
  show ?thesis
  proof (cases "bit_length N \<le> 53")
    case True
    have "N div 9007199254740992 = k"
      using lo hi [of 0] by (intro div_nat_eqI) (simp_all add: mult.commute)
    with True show ?thesis by (simp add: round_sig53_def N_def [symmetric] k_def)
  next
    case False
    define s where "s = bit_length N - 53"
    define T where "T = (2::nat) ^ s"
    define P where "P = (2::nat) ^ (53 - s)"
    define q where "q = N div T"
    have "N < 2 ^ 101"
    proof -
      have "N < 281474976710656 * 9007199254740992" using n' by (simp add: N_def)
      then show ?thesis by simp
    qed
    then have "bit_length N \<le> 101" by (rule bit_length_le)
    with False have s: "1 \<le> s" "s \<le> 48" by (simp_all add: s_def)
    then have TP: "P * T = 9007199254740992"
      by (simp add: T_def P_def power_add [symmetric])
    have T0: "0 < T" by (simp add: T_def)
    have "0 < N" using False by (cases "N = 0") (auto simp: bit_length.simps)
    then have "2 ^ bit_length N \<le> 2 * N" by (rule bit_length_lower)
    moreover have "bit_length N = s + 53" using False by (simp add: s_def)
    ultimately have "T * 2 ^ 53 \<le> 2 * N" by (simp add: T_def power_add)
    then have "T * 9007199254740992 \<le> 2 * N" by simp
    moreover have "N \<le> n * 9007199254740992" by (simp add: N_def)
    ultimately have TX: "T \<le> 2 * n" by linarith
    have "k * P * T \<le> N" using lo TP by (simp add: mult.assoc)
    then have q_lo: "k * P \<le> q" using T0 by (simp add: q_def less_eq_div_iff_mult_less_eq)
    have "q * T \<le> N" by (simp add: q_def)
    then have "(q + 1) * T \<le> N + T" by (simp add: add_mult_distrib)
    also have "\<dots> < (k + 1) * 9007199254740992" using TX by (rule hi)
    also have "\<dots> = ((k + 1) * P) * T" by (simp only: mult.assoc TP)
    finally have "(q + 1) * T < ((k + 1) * P) * T" .
    then have q_hi: "q + 1 < (k + 1) * P" by (simp only: mult_less_cancel2)
    have res: "m div P = k" if "m = q \<or> m = q + 1" for m
      using that q_lo q_hi by (intro div_nat_eqI) (auto simp: mult.commute)
    have "round_sig53 N = (if T < 2 * (N mod T) \<or> (2 * (N mod T) = T \<and> odd q) then q + 1 else q, s)"
      using False by (simp add: round_sig53_def s_def T_def q_def Let_def)
    then show ?thesis
      using s res by (auto simp: N_def [symmetric] k_def [symmetric] P_def)
  qed
qed

lemma sleep_seconds_int:
  assumes "0 \<le> i" and "i < 2 ^ 22"
  shows "sleep_seconds (JInt i) = Inr (9 * i div 10)"
proof -
  define n where "n = nat i"
  have i: "i = int n" and n22: "n < 2 ^ 22" using assms by (simp_all add: n_def nat_less_iff)
  have n: "n < 2 ^ 48" using n22 by simp
  then have "n < 2 ^ 53" by (simp add: order_less_trans [OF n])
  then have f: "int_to_double i = Inr (Double False n 0)"
    using bit_length_le [of n 53] i
    by (simp add: int_to_double_def mk_double_def round_sig53_small)
  obtain m s where r: "round_sig53 (n * 8106479329266893) = (m, s)" by fastforce
  with times_090_truncated [OF n] have s: "s \<le> 48" and m: "m div 2 ^ (53 - s) = 9 * n div 10"
    by simp_all
  have "double_mul (Double False n 0) c090 = Double False m (int s - 53)"
    using r by (simp add: double_mul_def c090_def mk_double_def)
  moreover have "nat (53 - int s) = 53 - s" using s by simp
  moreover have "int m div 2 ^ (53 - s) = int (m div 2 ^ (53 - s))"
    by (simp add: zdiv_int)
  ultimately have "double_to_int (double_mul (Double False n 0) c090) = int (9 * n div 10)"
    using s m by (simp add: double_to_int_def)
  moreover have "(0::int) \<le> 9 * int n div 10" by simp
  moreover have "9 * int n div 10 \<le> 4294967" using n22 by simp
  ultimately show ?thesis
    using f i by (simp add: sleep_seconds_def zdiv_int Let_def)
qed

subsection \<open>One pass\<close>

lemma sleep_seconds_py_int:
  assumes "py_int ex = Inr e" and "0 \<le> e" and "e < 2 ^ 22"
  shows "sleep_seconds ex = Inr (9 * e div 10)"
proof -
  have "sleep_seconds ex = sleep_seconds (JInt e)"
    using assms(1) by (cases ex) (auto simp: sleep_seconds_def split: if_splits)
  with assms(2,3) show ?thesis by (simp add: sleep_seconds_int)
qed

lemma get_sts_token_posts: "get_sts_token g tok url rs = (res, rqs, rest) \<Longrightarrow> rqs \<noteq> []"
  by (cases rs; cases "hd rs")
    (auto simp: Let_def after_request_eq split: if_splits option.splits sum.splits)

text \<open>Every pass that gets past the sleep has slept first and posted afterwards.\<close>

lemma renewal_pass_events:
  assumes "sleep_seconds (expire_time g) = Inr w"
  shows "\<exists>posts. pass_events (renewal_pass g rs) = Sleep w # map Post posts \<and> posts \<noteq> []"
proof -
  obtain res rqs rest where a: "get_sts_token g (refresh_token g) None rs = (res, rqs, rest)"
    by (metis prod_cases3)
  then have rqs: "rqs \<noteq> []" by (rule get_sts_token_posts)
  obtain res2 rqs2 rest2 where
    b: "get_sts_token g JNull None rest = (res2, rqs2, rest2)"
    by (metis prod_cases3)
  have retry: "pass_events (retry_with_password (store_token g c) (Sleep w # map Post rqs) rest)
      = Sleep w # map Post (rqs @ rqs2)" for c
    using b
    by (cases res2)
      (simp_all add: retry_with_password_def get_sts_token_store_token pass_events_def Let_def
        split: prod.splits)
  show ?thesis
  proof (cases res)
    case (Return c)
    with a assms rqs retry [of c] show ?thesis
      by (auto simp: renewal_pass_def pass_events_def Let_def
          split: sum.splits prod.splits if_splits
          intro: exI [of _ rqs] exI [of _ "rqs @ rqs2"])
  qed (use a assms rqs in \<open>auto simp: renewal_pass_def pass_events_def\<close>)
qed

lemma update_token_fields:
  "sts_token (update_token g) = sts_token g" "refresh_token (update_token g) = refresh_token g"
  "expire_time (update_token g) = expire_time g"
  "original_expire_time (update_token g) = original_expire_time g"
  by (simp_all add: update_token_def send_login_request_def ws_send_def)

text \<open>A completed pass ends on a 200 answer, and the three values it leaves in the
  state are the fields of that answer.\<close>

lemma renewal_pass_latest:
  assumes "renewal_pass g rs = (Return (), g', evs, rest)"
  shows "\<exists>used h b. rs = used @ [Response 200 h (Some b)] @ rest
           \<and> subscript b ''access_token'' = Inr (sts_token g')
           \<and> subscript b ''refresh_token'' = Inr (refresh_token g')
           \<and> subscript b ''expires_in'' = Inr (expire_time g')"
proof -
  obtain res rqs rs1 where a: "get_sts_token g (refresh_token g) None rs = (res, rqs, rs1)"
    by (metis prod_cases3)
  from assms a obtain w c where w: "sleep_seconds (expire_time g) = Inr w" and res: "res = Return c"
    by (cases res) (auto simp: renewal_pass_def split: sum.splits)
  obtain a1 r1 e1 where c: "c = (a1, r1, e1)" by (metis prod_cases3)
  define g1 where "g1 = store_token g c"
  have g1: "sts_token g1 = a1" "refresh_token g1 = r1" "expire_time g1 = e1"
    "original_expire_time g1 = original_expire_time g"
    by (simp_all add: g1_def c store_token_def)
  from assms a w res have t1: "truthy a1"
    by (auto simp: renewal_pass_def Let_def g1_def [symmetric] g1 split: if_splits)
  from get_sts_token_consumes [OF a [unfolded res c] t1] obtain used h b where
    u: "rs = used @ [Response 200 h (Some b)] @ rs1"
      "subscript b ''access_token'' = Inr a1" "subscript b ''refresh_token'' = Inr r1"
      "subscript b ''expires_in'' = Inr e1"
    by blast
  from assms a w res t1 consider
      (same) "g' = update_token g1" "rest = rs1"
    | (changed) "retry_with_password g1 (Sleep w # map Post rqs) rs1 = (Return (), g', evs, rest)"
    by (auto simp: renewal_pass_def Let_def g1_def [symmetric] g1 split: if_splits sum.splits)
  then show ?thesis
  proof cases
    case same
    with u g1 show ?thesis by (auto simp: update_token_fields)
  next
    case changed
    obtain res2 rqs2 rs2 where b2: "get_sts_token g JNull None rs1 = (res2, rqs2, rs2)"
      by (metis prod_cases3)
    have b1: "get_sts_token g1 JNull None rs1 = (res2, rqs2, rs2)"
      using b2 by (simp add: g1_def get_sts_token_store_token)
    with changed obtain c2 where res2: "res2 = Return c2"
      by (cases res2) (auto simp: retry_with_password_def)
    obtain a2 r2 e2 where c2: "c2 = (a2, r2, e2)" by (metis prod_cases3)
    have s2: "sts_token (store_token g1 c2) = a2" "expire_time (store_token g1 c2) = e2"
      by (simp_all add: c2 store_token_def)
    from changed b1 res2 have t2: "truthy a2" and rest: "rest = rs2"
      and g': "g' = update_token (store_token g1 c2\<lparr>original_expire_time := e2\<rparr>)"
      by (auto simp: retry_with_password_def Let_def s2 split: if_splits)
    from get_sts_token_consumes [OF b2 [unfolded res2 c2] t2] obtain used2 h2 b' where
      u2: "rs1 = used2 @ [Response 200 h2 (Some b')] @ rs2"
        "subscript b' ''access_token'' = Inr a2" "subscript b' ''refresh_token'' = Inr r2"
        "subscript b' ''expires_in'' = Inr e2"
      by blast
    have "rs = (used @ [Response 200 h (Some b)] @ used2) @ [Response 200 h2 (Some b')] @ rest"
      using u(1) u2(1) rest by simp
    with u2 g' c2 show ?thesis
      by (intro exI [of _ "used @ [Response 200 h (Some b)] @ used2"] exI [of _ h2] exI [of _ b'])
        (simp add: update_token_fields store_token_def)
  qed
qed

text \<open>A pass of the renewal loop leaves the login flag as it found it.\<close>

lemma logged_in_renewal_pass: "logged_in (fst (snd (renewal_pass g rs))) = logged_in g"
proof -
  have u: "logged_in (update_token g) = logged_in g" for g
    by (simp add: update_token_def send_login_request_def ws_send_def)
  have s: "logged_in (store_token g c) = logged_in g" for g c
    by (cases c) (simp add: store_token_def)
  have r: "logged_in (fst (snd (retry_with_password g evs rs))) = logged_in g" for g evs rs
    by (simp add: retry_with_password_def Let_def u s split: prod.splits result.splits)
  show ?thesis
    by (simp add: renewal_pass_def Let_def u s r split: prod.splits result.splits sum.splits)
qed

text \<open>The first acquisition leaves the expiry of its 200 answer in both variables.\<close>

lemma initial_token_expiry:
  assumes "initial_token g rs = (Return (), g', evs, rest)"
  shows "\<exists>used h b. rs = used @ [Response 200 h (Some b)] @ rest
           \<and> subscript b ''expires_in'' = Inr (expire_time g')
           \<and> original_expire_time g' = expire_time g'"
proof -
  obtain res rqs rs1 where a: "get_sts_token g JNull None rs = (res, rqs, rs1)"
    by (metis prod_cases3)
  with assms obtain c where res: "res = Return c"
    by (cases res) (auto simp: initial_token_def)
  obtain a1 r1 e1 where c: "c = (a1, r1, e1)" by (metis prod_cases3)
  have st: "sts_token (store_token g c) = a1" "expire_time (store_token g c) = e1"
    by (simp_all add: c store_token_def)
  from assms a res have t: "truthy a1" and rest: "rest = rs1"
    and g': "g' = store_token g c\<lparr>original_expire_time := e1\<rparr>"
    by (auto simp: initial_token_def Let_def st split: if_splits)
  from get_sts_token_consumes [OF a [unfolded res c] t] obtain used h b where
    "rs = used @ [Response 200 h (Some b)] @ rs1" "subscript b ''expires_in'' = Inr e1"
    by blast
  with rest g' st show ?thesis by auto
qed

text \<open>
  Claim C2 says that the wait before the next acquisition is 0.9 times the expiry of
  the latest credential.  The source sleeps \<^verbatim>\<open>int(float(expire_time) * 0.90)\<close>
  seconds, a whole number: with an expiry of 601 seconds the wait is 540 seconds, and
  0.9 times 601 is 540.9.
\<close>

theorem wait_is_truncated_counterexample:
  "sleep_seconds (JInt 601) = Inr 540 \<and> real_of_int 540 \<noteq> 0.9 * 601
   \<and> pass_events (renewal_pass (session0\<lparr>expire_time := JInt 601\<rparr>) [])
     = [Sleep 540, Post (token_request session0 (JStr ''R1'') (auth_url session0))]"
proof -
  have "sleep_seconds (JInt 601) = Inr 540"
    using sleep_seconds_int [of 601] by simp
  then show ?thesis
    by (simp add: renewal_pass_def pass_events_def session0_def url_or_default_def
        token_request_def)
qed

text \<open>
  Claim C2, amended: whenever a pass of the renewal loop completes, the credential it
  leaves in the state is the one of the last 200 answer it consumed, and the wait that
  opens the next pass, before any request of that pass, is computed from that
  credential's \<^verbatim>\<open>expires_in\<close> alone: for an expiry of integer value \<open>e\<close> with
  \<open>0 \<le> e < 2 ^ 22\<close> it is 0.9 times \<open>e\<close> with the fraction dropped, \<open>9 * e div 10\<close>
  seconds.
\<close>

theorem wait_is_truncated_latest_expiry:
  assumes "renewal_pass g rs = (Return (), g', evs, rest)"
    and "py_int (expire_time g') = Inr e" and "0 \<le> e" and "e < 2 ^ 22"
  shows "\<exists>used h b posts.
           rs = used @ [Response 200 h (Some b)] @ rest
           \<and> subscript b ''expires_in'' = Inr (expire_time g')
           \<and> pass_events (renewal_pass g' rs') = Sleep (9 * e div 10) # map Post posts
           \<and> posts \<noteq> []"
proof -
  from renewal_pass_latest [OF assms(1)] obtain used h b where
    "rs = used @ [Response 200 h (Some b)] @ rest" "subscript b ''expires_in'' = Inr (expire_time g')"
    by blast
  moreover have "sleep_seconds (expire_time g') = Inr (9 * e div 10)"
    using assms(2-4) by (rule sleep_seconds_py_int)
  from renewal_pass_events [OF this] obtain posts where
    "pass_events (renewal_pass g' rs') = Sleep (9 * e div 10) # map Post posts" "posts \<noteq> []"
    by blast
  ultimately show ?thesis by blast
qed

theorem wait_is_truncated_latest_expiry_witness:
  "renewal_pass session0
     [Response 200 [] (Some (token_body ''A2'' ''R2'' (JStr ''601''))),
      Response 200 [] (Some (token_body ''A3'' ''R3'' (JStr ''601'')))]
   = (Return (),
      session0\<lparr>sts_token := JStr ''A3'', refresh_token := JStr ''R3'',
                expire_time := JStr ''601'', original_expire_time := JStr ''601''\<rparr>,
      [Sleep 540, Post (token_request session0 (JStr ''R1'') (auth_url session0)),
       Post (token_request session0 JNull (auth_url session0))],
      [])
   \<and> py_int (JStr ''601'') = Inr 601
   \<and> pass_events
       (renewal_pass
          (session0\<lparr>sts_token := JStr ''A3'', refresh_token := JStr ''R3'',
                    expire_time := JStr ''601'', original_expire_time := JStr ''601''\<rparr>) [])
     = [Sleep 540, Post (token_request session0 (JStr ''R3'') (auth_url session0))]"
proof -
  let ?rs = "[Response 200 [] (Some (token_body ''A2'' ''R2'' (JStr ''601''))),
              Response 200 [] (Some (token_body ''A3'' ''R3'' (JStr ''601'')))]"
  let ?g' = "session0\<lparr>sts_token := JStr ''A3'', refresh_token := JStr ''R3'',
                       expire_time := JStr ''601'', original_expire_time := JStr ''601''\<rparr>"
  have i600: "py_int (JStr ''600'') = Inr 600" and i601: "py_int (JStr ''601'') = Inr 601"
    by (simp_all add: is_digits_def)
  have s600: "sleep_seconds (JStr ''600'') = Inr 540"
    using sleep_seconds_py_int [OF i600] by simp
  have pass: "renewal_pass session0 ?rs
      = (Return (), ?g',
         [Sleep 540, Post (token_request session0 (JStr ''R1'') (auth_url session0)),
          Post (token_request session0 JNull (auth_url session0))], [])"
    using s600 i600 i601
    by (simp add: renewal_pass_def retry_with_password_def update_token_def store_token_def
        token_body_def url_or_default_def session0_def token_request_def Let_def)
  have e: "py_int (expire_time ?g') = Inr 601" using i601 by simp
  have b: "(0::int) \<le> 601" "(601::int) < 2 ^ 22" by simp_all
  from wait_is_truncated_latest_expiry [OF pass e b, of "[]"]
  obtain posts where
    "pass_events (renewal_pass ?g' []) = Sleep (9 * 601 div 10) # map Post posts"
    by blast
  moreover have "\<exists>w. pass_events (renewal_pass ?g' [])
      = [w, Post (token_request session0 (JStr ''R3'') (auth_url session0))]"
    using sleep_seconds_py_int [OF i601]
    by (simp add: renewal_pass_def pass_events_def session0_def url_or_default_def
        token_request_def)
  ultimately have "pass_events (renewal_pass ?g' [])
      = [Sleep 540, Post (token_request session0 (JStr ''R3'') (auth_url session0))]"
    by auto
  with pass i601 show ?thesis by simp
qed

subsection \<open>A changed expiry\<close>

lemma get_sts_token_password_grant:
  assumes "get_sts_token g JNull url rs = (res, rqs, rest)"
  shows "list_all (\<lambda>rq. map_of (req_data rq) ''grant_type'' = Some (JStr ''password'')
                      \<and> map_of (req_data rq) ''refresh_token'' = None) rqs"
  using assms
proof (induction rs arbitrary: url rqs)
  case Nil
  then show ?case by (auto simp: token_request_def)
next
  case (Cons x rs)
  have rq: "map_of (req_data (token_request g JNull u)) ''grant_type'' = Some (JStr ''password'')
        \<and> map_of (req_data (token_request g JNull u)) ''refresh_token'' = None" for u
    by (simp add: token_request_def)
  show ?case
  proof (cases x)
    case RequestException
    with Cons.prems rq show ?thesis by auto
  next
    case (Response st hdrs bdy)
    with Cons.prems Cons.IH rq show ?thesis
      by (auto simp: Let_def after_request_eq
          split: if_splits option.splits sum.splits)
  qed
qed

lemma renewal_loop_step:
  assumes "renewal_pass g rs = (Return (), g', evs, rest)"
  shows "renewal_loop (Suc k) g rs
         = (case renewal_loop k g' rest of (res, g2, evs2, rest2) \<Rightarrow> (res, g2, evs @ evs2, rest2))"
  using assms by simp

text \<open>When the expiry has not changed the pass makes no second acquisition.\<close>

lemma expiry_unchanged_no_reacquisition:
  assumes "sleep_seconds (expire_time g) = Inr w"
    and "get_sts_token g (refresh_token g) None rs = (Return (a, r, e), rqs, rs1)"
    and "truthy a"
    and "py_int e = Inr n" and "py_int (original_expire_time g) = Inr n"
  shows "renewal_pass g rs
         = (Return (), update_token (g\<lparr>sts_token := a, refresh_token := r, expire_time := e\<rparr>),
            Sleep w # map Post rqs, rs1)"
proof -
  define g1 where "g1 = store_token g (a, r, e)"
  have g1: "sts_token g1 = a" "expire_time g1 = e"
    "original_expire_time g1 = original_expire_time g"
    by (simp_all add: g1_def store_token_def)
  have "renewal_pass g rs = (Return (), update_token g1, Sleep w # map Post rqs, rs1)"
    using assms by (simp add: renewal_pass_def Let_def g1_def [symmetric] g1)
  then show ?thesis by (simp add: g1_def store_token_def)
qed

text \<open>
  Claim C3: when the credential got with the refresh token has an \<^verbatim>\<open>expires_in\<close>
  whose integer value differs from that of \<^verbatim>\<open>original_expire_time\<close>, the pass makes
  exactly one further call of \<^verbatim>\<open>get_sts_token\<close>, with no refresh token, so that
  every request of that call is a password grant; the credential of that call is
  stored, \<^verbatim>\<open>original_expire_time\<close> becomes its \<^verbatim>\<open>expires_in\<close>, and the loop goes
  on to its next pass, which starts from the new refresh token.
\<close>

theorem expiry_change_one_password_acquisition:
  assumes "sleep_seconds (expire_time g) = Inr w"
    and "get_sts_token g (refresh_token g) None rs = (Return (a, r, e), rqs, rs1)"
    and "truthy a"
    and "py_int e = Inr n" and "py_int (original_expire_time g) = Inr n0" and "n \<noteq> n0"
    and "get_sts_token g JNull None rs1 = (Return (a2, r2, e2), rqs2, rs2)"
    and "truthy a2"
    and "g' = update_token (g\<lparr>sts_token := a2, refresh_token := r2, expire_time := e2,
                               original_expire_time := e2\<rparr>)"
  shows "renewal_pass g rs = (Return (), g', Sleep w # map Post rqs @ map Post rqs2, rs2)
         \<and> list_all (\<lambda>rq. map_of (req_data rq) ''grant_type'' = Some (JStr ''password'')
                           \<and> map_of (req_data rq) ''refresh_token'' = None) rqs2
         \<and> original_expire_time g' = e2 \<and> expire_time g' = e2 \<and> refresh_token g' = r2
         \<and> renewal_loop (Suc k) g rs
           = (case renewal_loop k g' rs2 of
                (res, g2, evs2, rest2) \<Rightarrow>
                  (res, g2, (Sleep w # map Post rqs @ map Post rqs2) @ evs2, rest2))"
proof -
  define g1 where "g1 = store_token g (a, r, e)"
  have g1: "sts_token g1 = a" "expire_time g1 = e"
    "original_expire_time g1 = original_expire_time g"
    by (simp_all add: g1_def store_token_def)
  have "get_sts_token g1 JNull None rs1 = (Return (a2, r2, e2), rqs2, rs2)"
    using assms(7) by (simp add: g1_def get_sts_token_store_token)
  moreover have "update_token (store_token g1 (a2, r2, e2)\<lparr>original_expire_time := e2\<rparr>) = g'"
    by (simp add: assms(9) g1_def store_token_def)
  moreover have "sts_token (store_token g1 (a2, r2, e2)) = a2"
    "expire_time (store_token g1 (a2, r2, e2)) = e2"
    by (simp_all add: store_token_def)
  ultimately have "retry_with_password g1 evs rs1 = (Return (), g', evs @ map Post rqs2, rs2)"
    for evs
    using assms(8) by (simp add: retry_with_password_def Let_def)
  then have pass: "renewal_pass g rs
      = (Return (), g', Sleep w # map Post rqs @ map Post rqs2, rs2)"
    using assms(1-6) by (simp add: renewal_pass_def Let_def g1_def [symmetric] g1)
  moreover note get_sts_token_password_grant [OF assms(7)]
  moreover have "original_expire_time g' = e2 \<and> expire_time g' = e2 \<and> refresh_token g' = r2"
    using assms(9) by (simp add: update_token_fields)
  moreover note renewal_loop_step [OF pass, of k]
  ultimately show ?thesis by simp
qed

theorem expiry_change_one_password_acquisition_witness:
  "renewal_pass (session0\<lparr>logged_in := True\<rparr>)
     [Response 200 [] (Some (token_body ''A2'' ''R2'' (JStr ''300''))),
      Response 200 [] (Some (token_body ''A3'' ''R3'' (JStr ''300''))),
      Response 200 [] (Some (token_body ''A4'' ''R4'' (JStr ''300'')))]
   = (Return (),
      update_token (session0\<lparr>logged_in := True, sts_token := JStr ''A3'',
                             refresh_token := JStr ''R3'', expire_time := JStr ''300'',
                             original_expire_time := JStr ''300''\<rparr>),
      [Sleep 540, Post (token_request session0 (JStr ''R1'') (auth_url session0)),
       Post (token_request session0 JNull (auth_url session0))],
      [Response 200 [] (Some (token_body ''A4'' ''R4'' (JStr ''300'')))])
   \<and> sent (update_token (session0\<lparr>logged_in := True, sts_token := JStr ''A3'',
                             refresh_token := JStr ''R3'', expire_time := JStr ''300'',
                             original_expire_time := JStr ''300''\<rparr>))
     = [json_dumps (login_json session0 (JStr ''A3'') True)]"
proof -
  let ?g = "session0\<lparr>logged_in := True\<rparr>"
  let ?b2 = "Response 200 [] (Some (token_body ''A2'' ''R2'' (JStr ''300'')))"
  let ?b3 = "Response 200 [] (Some (token_body ''A3'' ''R3'' (JStr ''300'')))"
  let ?b4 = "Response 200 [] (Some (token_body ''A4'' ''R4'' (JStr ''300'')))"
  have i600: "py_int (JStr ''600'') = Inr 600" and i300: "py_int (JStr ''300'') = Inr 300"
    by (simp_all add: is_digits_def)
  have h1: "sleep_seconds (expire_time ?g) = Inr 540"
    using sleep_seconds_py_int [OF i600] by (simp add: session0_def)
  have h2: "get_sts_token ?g (refresh_token ?g) None [?b2, ?b3, ?b4]
      = (Return (JStr ''A2'', JStr ''R2'', JStr ''300''),
         [token_request session0 (JStr ''R1'') (auth_url session0)], [?b3, ?b4])"
    by (simp add: token_body_def url_or_default_def session0_def token_request_def)
  have h3: "truthy (JStr ''A2'')" and h8: "truthy (JStr ''A3'')" by simp_all
  have h5: "py_int (original_expire_time ?g) = Inr 600"
    using i600 by (simp add: session0_def)
  have h6: "(300::int) \<noteq> 600" by simp
  have h7: "get_sts_token ?g JNull None [?b3, ?b4]
      = (Return (JStr ''A3'', JStr ''R3'', JStr ''300''),
         [token_request session0 JNull (auth_url session0)], [?b4])"
    by (simp add: token_body_def url_or_default_def session0_def token_request_def)
  show ?thesis
    using expiry_change_one_password_acquisition [OF h1 h2 h3 i300 h5 h6 h7 h8 refl, of 0]
    by (simp add: update_token_def send_login_request_def ws_send_def login_json_def
        session0_def)
qed

section \<open>Reading back what \<^verbatim>\<open>json.dumps\<close> wrote\<close>

subsection \<open>Digits\<close>

lemma hex_digit_table:
  "list_all (\<lambda>d. hex_value (hex_digit d) = Some d) [0..<16]"
  "list_all (\<lambda>d. (of_char (hex_digit d) :: nat) = 48 + d) [0..<10]"
  by code_simp+

lemma hex_value_hex_digit: "d < 16 \<Longrightarrow> hex_value (hex_digit d) = Some d"
  using hex_digit_table(1) by (simp add: list_all_iff)

lemma of_char_hex_digit: "d < 10 \<Longrightarrow> (of_char (hex_digit d) :: nat) = 48 + d"
  using hex_digit_table(2) by (simp add: list_all_iff)

lemma is_digit_hex_digit: "d < 10 \<Longrightarrow> is_digit (hex_digit d)"
  by (simp add: is_digit_def of_char_hex_digit)

lemma dec_value_append: "dec_value acc (xs @ ys) = dec_value (dec_value acc xs) ys"
  by (induction xs arbitrary: acc) simp_all

lemma digits_of_digits: "list_all is_digit (digits_of n)"
proof (induction n rule: digits_of.induct)
  case (1 n)
  then show ?case
    by (subst digits_of.simps) (simp add: is_digit_hex_digit)
qed

lemma digits_of_nonempty: "digits_of n \<noteq> []"
  by (subst digits_of.simps) simp

lemma dec_value_digits_of: "dec_value 0 (digits_of n) = n"
proof (induction n rule: digits_of.induct)
  case (1 n)
  show ?case
  proof (cases "n < 10")
    case True
    then show ?thesis by (subst digits_of.simps) (simp add: of_char_hex_digit)
  next
    case False
    with 1 have "dec_value 0 (digits_of (n div 10)) = n div 10" by simp
    with False show ?thesis
      by (subst digits_of.simps) (simp add: dec_value_append of_char_hex_digit)
  qed
qed

lemma hd_digits_of: "0 < n \<Longrightarrow> hd (digits_of n) \<noteq> CHR ''0''"
proof (induction n rule: digits_of.induct)
  case (1 n)
  show ?case
  proof (cases "n < 10")
    case True
    with 1(2) have "(of_char (hex_digit n) :: nat) \<noteq> of_char (CHR ''0'')"
      by (simp add: of_char_hex_digit)
    then have "hex_digit n \<noteq> CHR ''0''" by auto
    with True show ?thesis by (subst digits_of.simps) simp
  next
    case False
    with 1 have "hd (digits_of (n div 10)) \<noteq> CHR ''0''" by simp
    with False show ?thesis
      by (subst digits_of.simps) (simp add: digits_of_nonempty)
  qed
qed

lemma takeWhile_digits:
  assumes "list_all is_digit ds" and "ok_rest rest"
  shows "takeWhile is_digit (ds @ rest) = ds" and "dropWhile is_digit (ds @ rest) = rest"
proof -
  have a: "\<forall>x\<in>set ds. is_digit x" using assms(1) by (simp add: list_all_iff)
  have b: "takeWhile is_digit rest = []" "dropWhile is_digit rest = rest"
    using assms(2) by (cases rest; simp add: ok_rest_def)+
  show "takeWhile is_digit (ds @ rest) = ds" using a b by (simp add: takeWhile_append2)
  show "dropWhile is_digit (ds @ rest) = rest" using a b by (simp add: dropWhile_append2)
qed

lemma parse_nat_digits_of:
  assumes "ok_rest rest"
  shows "parse_nat (digits_of n @ rest) = Some (n, rest)"
proof (cases "n = 0")
  case True
  have "digits_of 0 = [hex_digit 0]" by (subst digits_of.simps) simp
  also have "hex_digit 0 = CHR ''0''" by (simp add: hex_digit_def)
  finally show ?thesis using True by (simp add: parse_nat_def)
next
  case False
  obtain c r where cr: "digits_of n = c # r"
    using digits_of_nonempty [of n] by (cases "digits_of n") auto
  with hd_digits_of [of n] False have c0: "c \<noteq> CHR ''0''" by simp
  from digits_of_digits [of n] cr have cd: "is_digit c" by simp
  have "takeWhile is_digit (c # r @ rest) = c # r" "dropWhile is_digit (c # r @ rest) = rest"
    using takeWhile_digits [OF digits_of_digits assms, of n] cr by simp_all
  with c0 cd cr dec_value_digits_of [of n] show ?thesis
    by (simp add: parse_nat_def del: takeWhile.simps dropWhile.simps dec_value.simps)
qed

lemma is_digit_cases:
  "is_digit c \<Longrightarrow> c \<noteq> CHR ''n'' \<and> c \<noteq> CHR ''t'' \<and> c \<noteq> CHR ''f'' \<and> c \<noteq> CHR ''-''
     \<and> c \<noteq> CHR 0x22 \<and> c \<noteq> CHR ''['' \<and> c \<noteq> CHR ''{'' \<and> c \<noteq> CHR '']'' \<and> c \<noteq> CHR ''}''
     \<and> \<not> is_ws c"
  by (auto simp: is_digit_def is_ws_def)

lemma parse_atom_int:
  assumes "ok_rest rest"
  shows "parse_atom (str_int i @ rest) = Some (JInt i, rest)"
proof (cases "i < 0")
  case True
  then show ?thesis
    using parse_nat_digits_of [OF assms, of "nat (- i)"]
    by (simp add: parse_atom_def str_int_def)
next
  case False
  obtain c r where cr: "digits_of (nat i) = c # r"
    using digits_of_nonempty [of "nat i"] by (cases "digits_of (nat i)") auto
  with digits_of_digits [of "nat i"] have "is_digit c" by simp
  note c = is_digit_cases [OF this]
  have "parse_nat (c # r @ rest) = Some (nat i, rest)"
    using parse_nat_digits_of [OF assms, of "nat i"] cr by simp
  with False c cr show ?thesis
    by (simp add: parse_atom_def str_int_def)
qed

subsection \<open>Strings\<close>

lemma parse_string_escape_char:
  "parse_string (escape_char c @ cs)
     = (case parse_string cs of None \<Rightarrow> None | Some (s, r) \<Rightarrow> Some (c # s, r))"
proof -
  define k where "k = (of_char c :: nat)"
  have k: "k < 256" and c: "char_of k = c" by (simp_all add: k_def)
  have hi: "hex_value (hex_digit (k div 16)) = Some (k div 16)"
    using k by (intro hex_value_hex_digit) simp
  have lo: "hex_value (hex_digit (k mod 16)) = Some (k mod 16)"
    by (intro hex_value_hex_digit) simp
  have z: "hex_value (CHR ''0'') = Some 0" by (simp add: hex_value_def)
  have u: "hex4 (CHR ''0'') (CHR ''0'') (hex_digit (k div 16)) (hex_digit (k mod 16)) = Some k"
    by (simp add: hex4_def hi lo z)
  consider (dq) "c = CHR 0x22" | (bsl) "c = CHR 0x5C" | (lf) "c = CHR 0x0A"
    | (ret) "c = CHR 0x0D" | (tab) "c = CHR 0x09" | (bsp) "c = CHR 0x08" | (ff) "c = CHR 0x0C"
    | (uni) "c \<noteq> CHR 0x22" "c \<noteq> CHR 0x5C" "c \<noteq> CHR 0x0A" "c \<noteq> CHR 0x0D" "c \<noteq> CHR 0x09"
        "c \<noteq> CHR 0x08" "c \<noteq> CHR 0x0C" "k < 32 \<or> 126 < k"
    | (plain) "c \<noteq> CHR 0x22" "c \<noteq> CHR 0x5C" "\<not> k < 32" "\<not> 126 < k"
    by (cases "k < 32 \<or> 126 < k") auto
  then show ?thesis
  proof cases
    case uni
    then have "escape_char c = [CHR 0x5C, CHR ''u'', CHR ''0'', CHR ''0'',
        hex_digit (k div 16), hex_digit (k mod 16)]"
      by (simp add: escape_char_def k_def)
    then show ?thesis using u k c by (simp split: option.splits)
  next
    case plain
    then have "escape_char c = [c]"
      by (auto simp: escape_char_def k_def)
    with plain show ?thesis by (simp add: k_def)
  qed (simp_all add: escape_char_def unescape_def split: option.splits)
qed

lemma parse_string_encode:
  "parse_string (concat (map escape_char s) @ CHR 0x22 # rest) = Some (s, rest)"
  by (induction s) (simp_all add: parse_string_escape_char del: parse_string.simps(2),
      simp)

lemma encode_str_Cons:
  "encode_str s @ rest = CHR 0x22 # concat (map escape_char s) @ CHR 0x22 # rest"
  by (simp add: encode_str_def)

subsection \<open>Dictionaries\<close>

lemma dict_set_fresh: "k \<notin> fst ` set d \<Longrightarrow> dict_set k v d = d @ [(k, v)]"
  by (induction d) auto

lemma foldl_dict_set:
  "distinct (map fst (d @ kvs)) \<Longrightarrow> foldl (\<lambda>d (k, v). dict_set k v d) d kvs = d @ kvs"
proof (induction kvs arbitrary: d)
  case Nil
  then show ?case by simp
next
  case (Cons p kvs)
  obtain k v where p: "p = (k, v)" by (cases p)
  from Cons.prems have "k \<notin> fst ` set d" by (auto simp: p)
  then have "dict_set k v d = d @ [(k, v)]" by (rule dict_set_fresh)
  moreover have "distinct (map fst ((d @ [(k, v)]) @ kvs))" using Cons.prems by (simp add: p)
  ultimately show ?case using Cons.IH [of "d @ [(k, v)]"] by (simp add: p)
qed

lemma make_dict_distinct: "distinct (map fst kvs) \<Longrightarrow> make_dict kvs = kvs"
  using foldl_dict_set [of "[]" kvs] by (simp add: make_dict_def)

subsection \<open>Values\<close>

lemma skip_ws_simps:
  "skip_ws [] = []" "skip_ws (CHR '' '' # cs) = skip_ws cs"
  "\<not> is_ws c \<Longrightarrow> skip_ws (c # cs) = c # cs"
  by (simp_all add: skip_ws_def is_ws_def)

lemma ok_rest_simps:
  "ok_rest []" "ok_rest (CHR '','' # cs)" "ok_rest (CHR '']'' # cs)" "ok_rest (CHR ''}'' # cs)"
  by (simp_all add: ok_rest_def is_digit_def)

lemma json_dumps_first:
  "\<exists>c r. json_dumps j = c # r \<and> \<not> is_ws c \<and> c \<noteq> CHR '']'' \<and> c \<noteq> CHR ''}''"
proof (cases j)
  case (JInt i)
  obtain c r where cr: "digits_of (nat \<bar>i\<bar>) = c # r"
    using digits_of_nonempty [of "nat \<bar>i\<bar>"] by (cases "digits_of (nat \<bar>i\<bar>)") auto
  with digits_of_digits [of "nat \<bar>i\<bar>"] have "is_digit c" by simp
  note is_digit_cases [OF this]
  with cr JInt show ?thesis
    by (cases "i < 0") (auto simp: str_int_def is_ws_def abs_if)
qed (auto simp: is_ws_def encode_str_def)

lemma skip_ws_json_dumps: "skip_ws (json_dumps j @ rest) = json_dumps j @ rest"
  using json_dumps_first [of j] by (auto simp: skip_ws_simps)

lemma join_Cons: "xs \<noteq> [] \<Longrightarrow> join sep (x # xs) = x @ sep @ join sep xs"
  by (cases xs) simp_all

lemma parse_elems_join:
  assumes "vs \<noteq> []"
    and "\<And>v n rest. v \<in> set vs \<Longrightarrow> length (json_dumps v) \<le> n \<Longrightarrow> ok_rest rest
           \<Longrightarrow> parse_value n (json_dumps v @ rest) = Some (v, rest)"
    and "length (join '', '' (map json_dumps vs)) < n"
  shows "parse_elems n (join '', '' (map json_dumps vs) @ CHR '']'' # rest) = Some (vs, rest)"
  using assms
proof (induction vs arbitrary: n rule: list_nonempty_induct)
  case (single v)
  from single.prems(2) obtain m where n: "n = Suc m" and m: "length (json_dumps v) \<le> m"
    by (cases n) auto
  have "parse_value m (json_dumps v @ CHR '']'' # rest) = Some (v, CHR '']'' # rest)"
    using m by (intro single.prems(1)) (simp_all add: ok_rest_simps)
  then show ?case by (simp add: n skip_ws_simps is_ws_def)
next
  case (cons v vs)
  let ?tl = "join '', '' (map json_dumps vs)"
  have j: "join '', '' (map json_dumps (v # vs)) = json_dumps v @ '', '' @ ?tl"
    using cons.hyps by (simp add: join_Cons)
  have tx: "join '', '' (map json_dumps (v # vs)) @ CHR '']'' # rest
      = json_dumps v @ CHR '','' # CHR '' '' # ?tl @ CHR '']'' # rest"
    by (simp only: j) simp
  have "length (json_dumps v) + 2 + length ?tl < n"
    using cons.prems(2) by (simp only: j) simp
  then obtain m where n: "n = Suc m"
    and m: "length (json_dumps v) \<le> m" "length ?tl < m"
    by (cases n) auto
  have pv: "parse_value m (json_dumps v @ CHR '','' # CHR '' '' # ?tl @ CHR '']'' # rest)
      = Some (v, CHR '','' # CHR '' '' # ?tl @ CHR '']'' # rest)"
    using m(1) by (intro cons.prems(1)) (simp_all add: ok_rest_simps)
  obtain w ws where vs: "vs = w # ws" using cons.hyps by (cases vs) auto
  have sk: "skip_ws (?tl @ CHR '']'' # rest) = ?tl @ CHR '']'' # rest"
    using skip_ws_json_dumps [of w] by (cases ws) (simp_all add: vs)
  have pe: "parse_elems m (?tl @ CHR '']'' # rest) = Some (vs, rest)"
    by (intro cons.IH) (use m(2) cons.prems(1) in auto)
  show ?case
    unfolding tx n using pv sk pe by (simp add: skip_ws_simps is_ws_def)
qed

lemma parse_members_join:
  assumes "kvs \<noteq> []"
    and "\<And>k v n rest. (k, v) \<in> set kvs \<Longrightarrow> length (json_dumps v) \<le> n \<Longrightarrow> ok_rest rest
           \<Longrightarrow> parse_value n (json_dumps v @ rest) = Some (v, rest)"
    and "length (join '', '' (map (\<lambda>(k, v). encode_str k @ '': '' @ json_dumps v) kvs)) < n"
  shows "parse_members n
           (join '', '' (map (\<lambda>(k, v). encode_str k @ '': '' @ json_dumps v) kvs) @ CHR ''}'' # rest)
         = Some (kvs, rest)"
  using assms
proof (induction kvs arbitrary: n rule: list_nonempty_induct)
  case (single p)
  obtain k v where p: "p = (k, v)" by (cases p)
  let ?f = "\<lambda>(k, v). encode_str k @ '': '' @ json_dumps v"
  have tx: "join '', '' (map ?f [p]) @ CHR ''}'' # rest
      = CHR 0x22 # concat (map escape_char k) @ CHR 0x22 # CHR '':'' # CHR '' '' #
        json_dumps v @ CHR ''}'' # rest"
    by (simp add: p encode_str_def)
  from single.prems(2) obtain m where n: "n = Suc m" and m: "length (json_dumps v) \<le> m"
    by (cases n) (auto simp: p)
  have pv: "parse_value m (json_dumps v @ CHR ''}'' # rest) = Some (v, CHR ''}'' # rest)"
    using m by (intro single.prems(1) [of k]) (simp_all add: ok_rest_simps p)
  show ?case
    unfolding tx n using pv
    by (simp add: p parse_string_encode skip_ws_simps is_ws_def skip_ws_json_dumps
        del: parse_string.simps)
next
  case (cons p kvs)
  obtain k v where p: "p = (k, v)" by (cases p)
  let ?f = "\<lambda>(k, v). encode_str k @ '': '' @ json_dumps v"
  let ?tl = "join '', '' (map ?f kvs)"
  have j: "join '', '' (map ?f (p # kvs)) = ?f p @ '', '' @ ?tl"
    using cons.hyps by (simp add: join_Cons)
  have tx: "join '', '' (map ?f (p # kvs)) @ CHR ''}'' # rest
      = CHR 0x22 # concat (map escape_char k) @ CHR 0x22 # CHR '':'' # CHR '' '' #
        json_dumps v @ CHR '','' # CHR '' '' # ?tl @ CHR ''}'' # rest"
    by (simp only: j) (simp add: p encode_str_def)
  have "length (json_dumps v) + 2 + length ?tl < n"
    using cons.prems(2) by (simp only: j) (simp add: p)
  then obtain m where n: "n = Suc m"
    and m: "length (json_dumps v) \<le> m" "length ?tl < m"
    by (cases n) auto
  have pv: "parse_value m (json_dumps v @ CHR '','' # CHR '' '' # ?tl @ CHR ''}'' # rest)
      = Some (v, CHR '','' # CHR '' '' # ?tl @ CHR ''}'' # rest)"
    using m(1) by (intro cons.prems(1) [of k]) (simp_all add: ok_rest_simps p)
  obtain q qs where kvs: "kvs = q # qs" using cons.hyps by (cases kvs) auto
  have sk: "skip_ws (?tl @ CHR ''}'' # rest) = ?tl @ CHR ''}'' # rest"
    by (cases q; cases qs) (simp_all add: kvs encode_str_def skip_ws_simps is_ws_def)
  have pe: "parse_members m (?tl @ CHR ''}'' # rest) = Some (kvs, rest)"
    by (intro cons.IH) (use m(2) cons.prems(1) in auto)
  show ?case
    unfolding tx n using pv sk pe
    by (simp add: p parse_string_encode skip_ws_simps is_ws_def skip_ws_json_dumps
        del: parse_string.simps)
qed

lemma parse_value_json_dumps:
  "wf_json j \<Longrightarrow> length (json_dumps j) \<le> n \<Longrightarrow> ok_rest rest
     \<Longrightarrow> parse_value n (json_dumps j @ rest) = Some (j, rest)"
proof (induction j arbitrary: n rest)
  case JNull
  then show ?case by (cases n) (simp_all add: parse_atom_def)
next
  case (JBool b)
  then show ?case by (cases n; cases b) (simp_all add: parse_atom_def)
next
  case (JInt i)
  from JInt.prems(2) obtain m where n: "n = Suc m"
    using json_dumps_first [of "JInt i"] by (cases n) auto
  obtain c r where cr: "str_int i = c # r" "c = CHR ''-'' \<or> is_digit c"
  proof (cases "i < 0")
    case True
    then show ?thesis using that by (simp add: str_int_def)
  next
    case False
    obtain c r where "digits_of (nat i) = c # r"
      using digits_of_nonempty [of "nat i"] by (cases "digits_of (nat i)") auto
    moreover from this digits_of_digits [of "nat i"] have "is_digit c" by simp
    ultimately show ?thesis using that False by (simp add: str_int_def)
  qed
  then have "c \<noteq> CHR 0x22 \<and> c \<noteq> CHR ''['' \<and> c \<noteq> CHR ''{''"
    using is_digit_cases [of c] by auto
  with cr(1) have "parse_value (Suc m) (str_int i @ rest) = parse_atom (str_int i @ rest)"
    by simp
  with JInt.prems(3) show ?case by (simp add: n parse_atom_int)
next
  case (JStr s)
  from JStr.prems(2) obtain m where "n = Suc m"
    by (cases n) (auto simp: encode_str_def)
  then show ?case
    by (simp add: encode_str_Cons parse_string_encode del: parse_string.simps)
next
  case (JArr vs)
  from JArr.prems(2) obtain m where n: "n = Suc m"
    and m: "length (join '', '' (map json_dumps vs)) < m"
    by (cases n) auto
  show ?case
  proof (cases "vs = []")
    case True
    then show ?thesis by (simp add: n skip_ws_simps is_ws_def)
  next
    case False
    let ?tx = "join '', '' (map json_dumps vs) @ CHR '']'' # rest"
    obtain w ws where vs: "vs = w # ws" using False by (cases vs) auto
    obtain c r where cr: "json_dumps w = c # r" "\<not> is_ws c" "c \<noteq> CHR '']''"
      using json_dumps_first [of w] by blast
    have "\<exists>r'. ?tx = c # r'" using cr(1) by (cases ws) (simp_all add: vs)
    then obtain r' where tx: "?tx = c # r'" ..
    have "parse_elems m ?tx = Some (vs, rest)"
    proof (rule parse_elems_join [OF False _ m])
      fix v n rest
      assume "v \<in> set vs" "length (json_dumps v) \<le> n" "ok_rest rest"
      with JArr.IH [of v n rest] JArr.prems(1)
      show "parse_value n (json_dumps v @ rest) = Some (v, rest)"
        by (simp add: list_all_iff)
    qed
    with tx cr show ?thesis by (simp add: n skip_ws_simps)
  qed
next
  case (JObj kvs)
  let ?f = "\<lambda>(k, v). encode_str k @ '': '' @ json_dumps v"
  from JObj.prems(2) obtain m where n: "n = Suc m"
    and m: "length (join '', '' (map ?f kvs)) < m"
    by (cases n) auto
  show ?case
  proof (cases "kvs = []")
    case True
    then show ?thesis by (simp add: n skip_ws_simps is_ws_def)
  next
    case False
    let ?tx = "join '', '' (map ?f kvs) @ CHR ''}'' # rest"
    obtain q qs where kvs: "kvs = q # qs" using False by (cases kvs) auto
    have "\<exists>r'. ?tx = CHR 0x22 # r'"
      by (cases q; cases qs) (simp_all add: kvs encode_str_Cons)
    then obtain r' where tx: "?tx = CHR 0x22 # r'" ..
    have "parse_members m ?tx = Some (kvs, rest)"
    proof (rule parse_members_join [OF False _ m])
      fix k v n rest
      assume "(k, v) \<in> set kvs" "length (json_dumps v) \<le> n" "ok_rest rest"
      with JObj.IH [of "(k, v)" v n rest] JObj.prems(1)
      show "parse_value n (json_dumps v @ rest) = Some (v, rest)"
        by (auto simp: list_all_iff)
    qed
    moreover have "make_dict kvs = kvs"
      using JObj.prems(1) by (simp add: make_dict_distinct)
    ultimately show ?thesis using tx by (simp add: n skip_ws_simps is_ws_def)
  qed
qed

text \<open>Reading back what \<^verbatim>\<open>json.dumps\<close> wrote gives the value written.\<close>

lemma json_loads_json_dumps: "wf_json j \<Longrightarrow> json_loads (json_dumps j) = Some j"
  using parse_value_json_dumps [of j "Suc (length (json_dumps j))" "[]"]
    skip_ws_json_dumps [of j "[]"]
  by (simp add: json_loads_def ok_rest_simps skip_ws_simps)

section \<open>The login frame\<close>

lemma login_json_fields:
  "subscript (login_json g auth_token is_refresh_token) ''Key''
     = Inr (JObj [(''NameType'', JStr ''AuthnToken''),
                  (''Elements'', JObj [(''ApplicationId'', JStr (app_id g)),
                                       (''Position'', JStr (position g)),
                                       (''AuthenticationToken'', auth_token)])])"
  "subscript (login_json g auth_token is_refresh_token) ''Refresh''
     = (if is_refresh_token then Inr (JBool False) else Inl KeyError)"
  by (simp_all add: login_json_def)

lemma wf_login_json: "wf_json auth_token \<Longrightarrow> wf_json (login_json g auth_token is_refresh_token)"
  by (simp add: login_json_def)

text \<open>
  Claim C9: \<^verbatim>\<open>send_login_request\<close> sends exactly one frame.  Read back as JSON, the
  frame is a dictionary whose \<^verbatim>\<open>Key.Elements.AuthenticationToken\<close> is the token the
  function was given, so the token survives the serialisation; the frame has the key
  \<^verbatim>\<open>Refresh\<close>, with the value \<^verbatim>\<open>false\<close>, when the call is a reissue, and has no
  such key when it is the first login.
\<close>

theorem login_frame_round_trip:
  assumes "wf_json auth_token"
  shows "\<exists>frame_text frame key elements.
           sent (send_login_request g auth_token is_refresh_token) = sent g @ [frame_text]
           \<and> json_loads frame_text = Some frame
           \<and> subscript frame ''Key'' = Inr key
           \<and> subscript key ''Elements'' = Inr elements
           \<and> subscript elements ''AuthenticationToken'' = Inr auth_token
           \<and> subscript frame ''Refresh''
               = (if is_refresh_token then Inr (JBool False) else Inl KeyError)"
proof -
  let ?frame = "login_json g auth_token is_refresh_token"
  have "sent (send_login_request g auth_token is_refresh_token) = sent g @ [json_dumps ?frame]"
    by (simp add: send_login_request_def ws_send_def)
  moreover have "json_loads (json_dumps ?frame) = Some ?frame"
    using assms by (intro json_loads_json_dumps wf_login_json)
  ultimately show ?thesis
    using login_json_fields [of g auth_token is_refresh_token] by simp
qed

theorem login_frame_round_trip_witness:
  \<open>wf_json (JStr ''A1'')
   \<and> sent (send_login_request session0 (JStr ''A1'') True)
     = [''{"ID": 1, "Domain": "Login", "Key": {"NameType": "AuthnToken", "Elements": {"ApplicationId": "256", "Position": "127.0.0.1/net", "AuthenticationToken": "A1"}}, "Refresh": false}'']
   \<and> sent (on_open session0)
     = [''{"ID": 1, "Domain": "Login", "Key": {"NameType": "AuthnToken", "Elements": {"ApplicationId": "256", "Position": "127.0.0.1/net", "AuthenticationToken": "A1"}}}'']
   \<and> json_loads ''{"ID": 1, "Domain": "Login", "Key": {"NameType": "AuthnToken", "Elements": {"ApplicationId": "256", "Position": "127.0.0.1/net", "AuthenticationToken": "A1"}}, "Refresh": false}''
     = Some (login_json session0 (JStr ''A1'') True)\<close>
proof -
  have t: "wf_json (JStr ''A1'')" by simp
  have one: "digits_of (Suc 0) = ''1''" by (subst digits_of.simps) (simp add: hex_digit_def)
  have s: \<open>sent (send_login_request session0 (JStr ''A1'') True)
     = [''{"ID": 1, "Domain": "Login", "Key": {"NameType": "AuthnToken", "Elements": {"ApplicationId": "256", "Position": "127.0.0.1/net", "AuthenticationToken": "A1"}}, "Refresh": false}'']\<close>
    by (simp add: send_login_request_def ws_send_def login_json_def session0_def
        encode_str_def escape_char_def str_int_def one)
  have o: \<open>sent (on_open session0)
     = [''{"ID": 1, "Domain": "Login", "Key": {"NameType": "AuthnToken", "Elements": {"ApplicationId": "256", "Position": "127.0.0.1/net", "AuthenticationToken": "A1"}}}'']\<close>
    by (simp add: on_open_def send_login_request_def ws_send_def login_json_def session0_def
        encode_str_def escape_char_def str_int_def one)
  from login_frame_round_trip [OF t, of session0 True] obtain frame_text frame where
    f: "sent (send_login_request session0 (JStr ''A1'') True) = sent session0 @ [frame_text]"
      "json_loads frame_text = Some frame"
    by blast
  have "json_loads (json_dumps (login_json session0 (JStr ''A1'') True))
      = Some (login_json session0 (JStr ''A1'') True)"
    by (intro json_loads_json_dumps wf_login_json t)
  moreover have "sent (send_login_request session0 (JStr ''A1'') True)
      = [json_dumps (login_json session0 (JStr ''A1'') True)]"
    by (simp add: send_login_request_def ws_send_def session0_def)
  ultimately show ?thesis using t s o f by simp
qed

end
